theory Spec2Isabelle
  imports Main "HOL-Library.Sublist" "HOL-Library.Word"
begin

section \<open>JavaScript strings and regular expressions\<close>

text \<open>
  A JavaScript string is modelled as a \<^typ>\<open>string\<close>: a list of code units in the range
  0..255. That is exactly the range of the strings \<^verbatim>\<open>atob\<close> returns, which is what the
  consumer compiles. All characters the patterns of the program name are ASCII.
\<close>

subsection \<open>Character classes\<close>

datatype cclass =
    Lit char        \<comment> \<open>a literal character\<close>
  | NotCh char      \<comment> \<open>\<^verbatim>\<open>[^c]\<close>\<close>
  | Space           \<comment> \<open>\<^verbatim>\<open>\s\<close>\<close>
  | Ident           \<comment> \<open>\<^verbatim>\<open>[a-zA-Z0-9_]\<close>\<close>
  | Dot             \<comment> \<open>\<^verbatim>\<open>.\<close> (no \<^verbatim>\<open>s\<close> flag)\<close>

definition is_space :: "char \<Rightarrow> bool" where
  \<comment> \<open>WhiteSpace and LineTerminator code points below 256: TAB, LF, VT, FF, CR, SP, NBSP\<close>
  "is_space c = (c \<in> set [CHR 0x09, CHR 0x0A, CHR 0x0B, CHR 0x0C, CHR 0x0D, CHR 0x20, CHR 0xA0])"

definition is_ident :: "char \<Rightarrow> bool" where
  "is_ident c =
     (let n = (of_char c :: nat)
      in (97 \<le> n \<and> n \<le> 122) \<or> (65 \<le> n \<and> n \<le> 90) \<or> (48 \<le> n \<and> n \<le> 57) \<or> n = 95)"

definition is_line_terminator :: "char \<Rightarrow> bool" where
  \<comment> \<open>LF and CR (U+2028 and U+2029 are beyond the modelled range)\<close>
  "is_line_terminator c = (c = CHR 0x0A \<or> c = CHR 0x0D)"

fun cc_ok :: "cclass \<Rightarrow> char \<Rightarrow> bool" where
  "cc_ok (Lit a) c = (c = a)"
| "cc_ok (NotCh a) c = (c \<noteq> a)"
| "cc_ok Space c = is_space c"
| "cc_ok Ident c = is_ident c"
| "cc_ok Dot c = (\<not> is_line_terminator c)"

subsection \<open>Patterns and the backtracking matcher\<close>

text \<open>
  The regular expressions of the program are sequences of single characters, character
  classes under a greedy \<^verbatim>\<open>*\<close> or \<^verbatim>\<open>+\<close> or a lazy \<^verbatim>\<open>*?\<close>, and capture groups that are
  neither nested nor quantified. A pattern is the list of its items in source order.
\<close>

datatype item =
    One cclass      \<comment> \<open>exactly one character of the class\<close>
  | Star cclass     \<comment> \<open>greedy \<^verbatim>\<open>*\<close>\<close>
  | Plus cclass     \<comment> \<open>greedy \<^verbatim>\<open>+\<close>\<close>
  | Lazy cclass     \<comment> \<open>lazy \<^verbatim>\<open>*?\<close>\<close>
  | GOpen           \<comment> \<open>\<^verbatim>\<open>(\<close>\<close>
  | GClose          \<comment> \<open>\<^verbatim>\<open>)\<close>\<close>

type_synonym regex = "item list"

definition lits :: "string \<Rightarrow> regex" where
  "lits s = map (\<lambda>c. One (Lit c)) s"

text \<open>
  \<open>rmatch p s mk caps\<close> matches pattern \<open>p\<close> against a prefix of \<open>s\<close> the way a backtracking
  engine does: a greedy quantifier first tries one more character and falls back to the
  rest of the pattern, a lazy one first tries the rest of the pattern. \<open>mk\<close> is the input
  as it was where the open group started, \<open>caps\<close> the groups captured so far. The result
  is the captures and the input left after the match.
\<close>

fun rmatch :: "regex \<Rightarrow> string \<Rightarrow> string \<Rightarrow> string list \<Rightarrow> (string list \<times> string) option" where
  "rmatch [] s mk caps = Some (caps, s)"
| "rmatch (One c # k) [] mk caps = None"
| "rmatch (One c # k) (x # xs) mk caps = (if cc_ok c x then rmatch k xs mk caps else None)"
| "rmatch (Star c # k) [] mk caps = rmatch k [] mk caps"
| "rmatch (Star c # k) (x # xs) mk caps =
     (if cc_ok c x
      then (case rmatch (Star c # k) xs mk caps of
              Some r \<Rightarrow> Some r
            | None \<Rightarrow> rmatch k (x # xs) mk caps)
      else rmatch k (x # xs) mk caps)"
| "rmatch (Plus c # k) [] mk caps = None"
| "rmatch (Plus c # k) (x # xs) mk caps =
     (if cc_ok c x then rmatch (Star c # k) xs mk caps else None)"
| "rmatch (Lazy c # k) [] mk caps = rmatch k [] mk caps"
| "rmatch (Lazy c # k) (x # xs) mk caps =
     (case rmatch k (x # xs) mk caps of
        Some r \<Rightarrow> Some r
      | None \<Rightarrow> (if cc_ok c x then rmatch (Lazy c # k) xs mk caps else None))"
| "rmatch (GOpen # k) s mk caps = rmatch k s s caps"
| "rmatch (GClose # k) s mk caps = rmatch k s mk (caps @ [take (length mk - length s) mk])"

definition re_exec :: "regex \<Rightarrow> string \<Rightarrow> (string list \<times> nat) option" where
  \<comment> \<open>a match starting at the head of the input: its captures and its length\<close>
  "re_exec r s = map_option (\<lambda>(caps, rest). (caps, length s - length rest)) (rmatch r s s [])"

subsection \<open>\<^verbatim>\<open>String.prototype.replace\<close>\<close>

text \<open>
  A replacement string: \<^verbatim>\<open>$n\<close> for a digit \<open>n\<close> from 1 to 9 that names an existing group is
  that group's capture; every other character stands for itself. (The replacement strings
  of the program use no other \<^verbatim>\<open>$\<close> form.)
\<close>

definition group_ref :: "char \<Rightarrow> nat option" where
  \<comment> \<open>the group a digit 1..9 after \<^verbatim>\<open>$\<close> names\<close>
  "group_ref d =
     (let n = (of_char d :: nat) in if 49 \<le> n \<and> n \<le> 57 then Some (n - 48) else None)"

fun expand :: "string \<Rightarrow> string list \<Rightarrow> string" where
  "expand [] caps = []"
| "expand [c] caps = [c]"
| "expand (c # d # cs) caps =
     (if c = CHR ''$'' then
        (case group_ref d of
           Some n \<Rightarrow> (if n \<le> length caps then caps ! (n - 1) @ expand cs caps
                      else c # expand (d # cs) caps)
         | None \<Rightarrow> c # expand (d # cs) caps)
      else c # expand (d # cs) caps)"

text \<open>
  \<open>replace_g r f s\<close> is \<^verbatim>\<open>s.replace(/r/g, f)\<close>: scanning from the left, the leftmost match is
  replaced by what \<open>f\<close> makes of its captures and the scan resumes after the match (one
  character further when the match is empty). The replacement is never scanned again.
\<close>

function replace_g :: "regex \<Rightarrow> (string list \<Rightarrow> string) \<Rightarrow> string \<Rightarrow> string" where
  "replace_g r f [] = (case re_exec r [] of Some (caps, n) \<Rightarrow> f caps | None \<Rightarrow> [])"
| "replace_g r f (c # cs) =
     (case re_exec r (c # cs) of
        None \<Rightarrow> c # replace_g r f cs
      | Some (caps, n) \<Rightarrow>
          (if n = 0 then f caps @ c # replace_g r f cs
           else f caps @ replace_g r f (drop n (c # cs))))"
  by pat_completeness auto
termination
  by (relation "measure (\<lambda>(r, f, s). length s)") auto

section \<open>Context bindings\<close>

text \<open>
  The context is an object literal (\<^verbatim>\<open>{ user: 'Scholar' }\<close> in the runtime,
  \<^verbatim>\<open>{ user: 'Scholar (SSR)' }\<close> in the server, \<^verbatim>\<open>{}\<close> by default) whose own properties are
  strings: the bindings. \<^verbatim>\<open>context[v]\<close> reads an own property first and a property inherited
  from \<^verbatim>\<open>Object.prototype\<close> otherwise; a name that is neither is \<^verbatim>\<open>undefined\<close>. The
  inherited properties are built-in functions, and \<^verbatim>\<open>__proto__\<close>, which is
  \<^verbatim>\<open>Object.prototype\<close> itself.
\<close>

datatype jsval =
    Undefined
  | Str string
  | NativeFn string   \<comment> \<open>a built-in function, by its name\<close>
  | ObjectProto       \<comment> \<open>the object \<^verbatim>\<open>Object.prototype\<close>\<close>

type_synonym bindings = "string \<rightharpoonup> string"

definition object_prototype :: "string \<rightharpoonup> jsval" where
  "object_prototype = map_of
     [(''constructor'', NativeFn ''Object''),
      (''__defineGetter__'', NativeFn ''__defineGetter__''),
      (''__defineSetter__'', NativeFn ''__defineSetter__''),
      (''hasOwnProperty'', NativeFn ''hasOwnProperty''),
      (''__lookupGetter__'', NativeFn ''__lookupGetter__''),
      (''__lookupSetter__'', NativeFn ''__lookupSetter__''),
      (''isPrototypeOf'', NativeFn ''isPrototypeOf''),
      (''propertyIsEnumerable'', NativeFn ''propertyIsEnumerable''),
      (''toString'', NativeFn ''toString''),
      (''valueOf'', NativeFn ''valueOf''),
      (''__proto__'', ObjectProto),
      (''toLocaleString'', NativeFn ''toLocaleString'')]"

definition js_get :: "bindings \<Rightarrow> string \<Rightarrow> jsval" where
  \<comment> \<open>\<^verbatim>\<open>context[v]\<close>\<close>
  "js_get context v =
     (case context v of
        Some s \<Rightarrow> Str s
      | None \<Rightarrow> (case object_prototype v of Some x \<Rightarrow> x | None \<Rightarrow> Undefined))"

fun js_String :: "jsval \<Rightarrow> string" where
  \<comment> \<open>\<^verbatim>\<open>String(x)\<close>; a built-in function prints as V8 prints it\<close>
  "js_String Undefined = ''undefined''"
| "js_String (Str s) = s"
| "js_String (NativeFn n) = ''function '' @ n @ ''() { [native code] }''"
| "js_String ObjectProto = ''[object Object]''"

fun truthy :: "jsval \<Rightarrow> bool" where
  "truthy Undefined = False"
| "truthy (Str s) = (s \<noteq> [])"
| "truthy (NativeFn n) = True"
| "truthy ObjectProto = True"

section \<open>The markup compiler\<close>

definition placeholder_re :: regex where
  \<comment> \<open>\<^verbatim>\<open>/\{\{\s*([a-zA-Z0-9_]+)\s*\}\}/\<close>\<close>
  "placeholder_re =
     lits ''{{'' @ [Star Space, GOpen, Plus Ident, GClose, Star Space] @ lits ''}}''"

definition page_re :: regex where
  \<comment> \<open>\<^verbatim>\<open>/<flo:page[^>]*title="([^"]+)"[^>]*>/\<close>\<close>
  "page_re =
     lits ''<flo:page'' @ [Star (NotCh CHR ''>'')] @ lits ''title=\"''
       @ [GOpen, Plus (NotCh CHR 0x22), GClose] @ lits ''\"'' @ [Star (NotCh CHR ''>'')] @ lits ''>''"

definition card_re :: regex where
  \<comment> \<open>\<^verbatim>\<open>/<flo:card[^>]*title="([^"]+)"[^>]*>/\<close>\<close>
  "card_re =
     lits ''<flo:card'' @ [Star (NotCh CHR ''>'')] @ lits ''title=\"''
       @ [GOpen, Plus (NotCh CHR 0x22), GClose] @ lits ''\"'' @ [Star (NotCh CHR ''>'')] @ lits ''>''"

definition link_re :: regex where
  \<comment> \<open>\<^verbatim>\<open>/<flo:link href="([^"]+)"[^>]*>(.*?)<\/flo:link>/\<close>\<close>
  "link_re =
     lits ''<flo:link href=\"'' @ [GOpen, Plus (NotCh CHR 0x22), GClose] @ lits ''\"''
       @ [Star (NotCh CHR ''>'')] @ lits ''>'' @ [GOpen, Lazy Dot, GClose] @ lits ''</flo:link>''"

type_synonym rule = "regex \<times> string"

definition apply_rules :: "rule list \<Rightarrow> string \<Rightarrow> string" where
  \<comment> \<open>the chain \<^verbatim>\<open>html.replace(r1, s1).replace(r2, s2)...\<close>, left to right\<close>
  "apply_rules rules html = foldl (\<lambda>h (r, rep). replace_g r (expand rep) h) html rules"

text \<open>The producer: \<^verbatim>\<open>compileFLOtoHTML\<close> of the server.\<close>

definition server_rules :: "rule list" where
  "server_rules =
    [(page_re, ''<div class=\"flo-page\" data-title=\"$1\">''),
     (lits ''</flo:page>'', ''</div>''),
     (lits ''<flo:header>'', ''<header class=\"flo-header\">''), (lits ''</flo:header>'', ''</header>''),
     (lits ''<flo:nav>'', ''<nav class=\"flo-nav\">''), (lits ''</flo:nav>'', ''</nav>''),
     (lits ''<flo:logo>'', ''<div class=\"flo-logo\">''), (lits ''</flo:logo>'', ''</div>''),
     (lits ''<flo:main>'', ''<main class=\"flo-main\">''), (lits ''</flo:main>'', ''</main>''),
     (card_re, ''<section class=\"flo-card\" data-title=\"$1\">''),
     (lits ''</flo:card>'', ''</section>''),
     (lits ''<flo:footer>'', ''<footer class=\"flo-footer\">''), (lits ''</flo:footer>'', ''</footer>''),
     (link_re, ''<a href=\"$1\" class=\"flo-link\">$2</a>'')]"

definition server_callback :: "bindings \<Rightarrow> string list \<Rightarrow> string" where
  \<comment> \<open>\<^verbatim>\<open>(_, v) => context[v] || ''\<close>, whose result \<^verbatim>\<open>replace\<close> converts to a string\<close>
  "server_callback context caps =
     (let v = caps ! 0
      in js_String (if truthy (js_get context v) then js_get context v else Str []))"

definition compileFLOtoHTML :: "string \<Rightarrow> bindings \<Rightarrow> string" where
  "compileFLOtoHTML floSource context =
     (let html = replace_g placeholder_re (server_callback context) floSource
      in apply_rules server_rules html)"

text \<open>The consumer: \<^verbatim>\<open>clientCompileFLO\<close> of runtime1.js and runtime12.js (the same text).\<close>

definition client_rules :: "rule list" where
  "client_rules =
    [(page_re, ''<div class=\"flo-page\" data-title=\"$1\">''),
     (lits ''</flo:page>'', ''</div>''),
     (lits ''<flo:header>'', ''<header class=\"flo-header\">''), (lits ''</flo:header>'', ''</header>''),
     (lits ''<flo:nav>'', ''<nav class=\"flo-nav\">''), (lits ''</flo:nav>'', ''</nav>''),
     (lits ''<flo:logo>'', ''<div class=\"flo-logo\">''), (lits ''</flo:logo>'', ''</div>''),
     (lits ''<flo:main>'', ''<main class=\"flo-main\">''), (lits ''</flo:main>'', ''</main>''),
     (card_re, ''<section class=\"flo-card\" data-title=\"$1\">''),
     (lits ''</flo:card>'', ''</section>''),
     (lits ''<flo:footer>'', ''<footer class=\"flo-footer\">''), (lits ''</flo:footer>'', ''</footer>''),
     (link_re, ''<a href=\"$1\" class=\"flo-link\">$2</a>'')]"

definition client_callback :: "bindings \<Rightarrow> string list \<Rightarrow> string" where
  \<comment> \<open>\<^verbatim>\<open>(_, v) => { return context[v] !== undefined ? String(context[v]) : ''; }\<close>\<close>
  "client_callback context caps =
     (let v = caps ! 0
      in if js_get context v \<noteq> Undefined then js_String (js_get context v) else [])"

definition clientCompileFLO :: "string \<Rightarrow> bindings \<Rightarrow> string" where
  "clientCompileFLO src context =
     (let html = src;
          html = replace_g placeholder_re (client_callback context) html;
          html = apply_rules client_rules html
      in html)"

text \<open>The consumer of runtime123.js, whose interpolation is written as the producer's.\<close>

definition client_rules_123 :: "rule list" where
  "client_rules_123 =
    [(page_re, ''<div class=\"flo-page\" data-title=\"$1\">''),
     (lits ''</flo:page>'', ''</div>''),
     (lits ''<flo:header>'', ''<header class=\"flo-header\">''), (lits ''</flo:header>'', ''</header>''),
     (lits ''<flo:nav>'', ''<nav class=\"flo-nav\">''), (lits ''</flo:nav>'', ''</nav>''),
     (lits ''<flo:logo>'', ''<div class=\"flo-logo\">''), (lits ''</flo:logo>'', ''</div>''),
     (lits ''<flo:main>'', ''<main class=\"flo-main\">''), (lits ''</flo:main>'', ''</main>''),
     (card_re, ''<section class=\"flo-card\" data-title=\"$1\">''),
     (lits ''</flo:card>'', ''</section>''),
     (lits ''<flo:footer>'', ''<footer class=\"flo-footer\">''), (lits ''</flo:footer>'', ''</footer>''),
     (link_re, ''<a href=\"$1\" class=\"flo-link\">$2</a>'')]"

definition client_callback_123 :: "bindings \<Rightarrow> string list \<Rightarrow> string" where
  \<comment> \<open>\<^verbatim>\<open>(_, v) => context[v] || ''\<close>\<close>
  "client_callback_123 context caps =
     (let v = caps ! 0
      in js_String (if truthy (js_get context v) then js_get context v else Str []))"

definition clientCompileFLO_123 :: "string \<Rightarrow> bindings \<Rightarrow> string" where
  "clientCompileFLO_123 src context =
     (let html = replace_g placeholder_re (client_callback_123 context) src;
          html = apply_rules client_rules_123 html
      in html)"

section \<open>The consumer runtime\<close>

subsection \<open>Platform functions\<close>

text \<open>
  \<^verbatim>\<open>atob\<close> is the forgiving base64 decoding of the platform: ASCII whitespace is dropped,
  up to two padding characters of a string whose length is a multiple of four are
  dropped, and a length of 1 modulo 4 or a character outside the alphabet raises
  \<^verbatim>\<open>InvalidCharacterError\<close> (the value \<open>None\<close>).
\<close>

definition b64_value :: "char \<Rightarrow> nat option" where
  \<comment> \<open>the position of a character in the alphabet \<^verbatim>\<open>A-Z a-z 0-9 + /\<close>\<close>
  "b64_value c =
     (let n = (of_char c :: nat)
      in if 65 \<le> n \<and> n \<le> 90 then Some (n - 65)
         else if 97 \<le> n \<and> n \<le> 122 then Some (n - 71)
         else if 48 \<le> n \<and> n \<le> 57 then Some (n + 4)
         else if n = 43 then Some 62
         else if n = 47 then Some 63
         else None)"

fun b64_values :: "string \<Rightarrow> nat list option" where
  "b64_values [] = Some []"
| "b64_values (c # cs) =
     (case b64_value c of
        None \<Rightarrow> None
      | Some v \<Rightarrow> map_option ((#) v) (b64_values cs))"

fun b64_bytes :: "nat list \<Rightarrow> nat list" where
  "b64_bytes (a # b # c # d # rest) =
     [a * 4 + b div 16, (b mod 16) * 16 + c div 4, (c mod 4) * 64 + d] @ b64_bytes rest"
| "b64_bytes [a, b, c] = [a * 4 + b div 16, (b mod 16) * 16 + c div 4]"
| "b64_bytes [a, b] = [a * 4 + b div 16]"
| "b64_bytes _ = []"

definition is_ascii_whitespace :: "char \<Rightarrow> bool" where
  "is_ascii_whitespace c = (c \<in> set [CHR 0x09, CHR 0x0A, CHR 0x0C, CHR 0x0D, CHR 0x20])"

definition strip_padding :: "string \<Rightarrow> string" where
  "strip_padding d =
     (if length d mod 4 = 0 \<and> d \<noteq> [] \<and> last d = CHR ''=''
      then (if butlast d \<noteq> [] \<and> last (butlast d) = CHR ''='' then butlast (butlast d)
            else butlast d)
      else d)"

definition atob :: "string \<Rightarrow> string option" where
  "atob s =
     (let d = strip_padding (filter (\<lambda>c. \<not> is_ascii_whitespace c) s)
      in if length d mod 4 = 1 then None
         else map_option (\<lambda>vs. map char_of (b64_bytes vs)) (b64_values d))"

definition trim :: "string \<Rightarrow> string" where
  \<comment> \<open>\<^verbatim>\<open>String.prototype.trim\<close>\<close>
  "trim s = rev (dropWhile is_space (rev (dropWhile is_space s)))"

type_synonym bytes = "8 word list"

definition TextEncoder_encode :: "string \<Rightarrow> bytes" where
  \<comment> \<open>UTF-8 of a string whose code units are below 256: one byte below 128, two above\<close>
  "TextEncoder_encode s =
     concat (map (\<lambda>c. let n = (of_char c :: nat)
                       in if n < 128 then [of_nat n] else [of_nat (192 + n div 64), of_nat (128 + n mod 64)])
                 s)"

fun replace_first :: "regex \<Rightarrow> (string list \<Rightarrow> string) \<Rightarrow> string \<Rightarrow> string" where
  \<comment> \<open>\<^verbatim>\<open>s.replace(/r/, f)\<close> without the \<^verbatim>\<open>g\<close> flag: the leftmost match only\<close>
  "replace_first r f [] = (case re_exec r [] of Some (caps, n) \<Rightarrow> f caps | None \<Rightarrow> [])"
| "replace_first r f (c # cs) =
     (case re_exec r (c # cs) of
        None \<Rightarrow> c # replace_first r f cs
      | Some (caps, n) \<Rightarrow> f caps @ drop n (c # cs))"

text \<open>
  The Web Crypto calls are parameters: \<open>importKey\<close> is
  \<^verbatim>\<open>crypto.subtle.importKey('spki', spki, {RSASSA-PKCS1-v1_5, SHA-256}, true, ['verify'])\<close>
  and \<open>verify\<close> is \<^verbatim>\<open>crypto.subtle.verify('RSASSA-PKCS1-v1_5', key, signature, data)\<close>; \<open>None\<close>
  is a rejected promise, which \<^verbatim>\<open>await\<close> raises. \<open>parseHTML\<close> is the assignment
  \<^verbatim>\<open>temp.innerHTML = html\<close> of the template element, \<open>None\<close> when it raises.
\<close>

datatype node =
    Fragment string   \<comment> \<open>the nodes the HTML parser makes of a string\<close>
  | VerifiedNote      \<comment> \<open>the banner \<^verbatim>\<open>div\<close> that says the document was verified\<close>

record 'k platform =
  importKey :: "bytes \<Rightarrow> 'k option"
  verify :: "'k \<Rightarrow> bytes \<Rightarrow> bytes \<Rightarrow> bool option"
  parseHTML :: "string \<Rightarrow> node list option"

datatype exn = InvalidCharacterError | ImportRejected | VerifyRejected | DomError

datatype 'k event =
    ImportKey bytes
  | Verify 'k bytes bytes
  | Compile string

subsection \<open>Helpers of runtime1.js\<close>

definition pemToArrayBuffer :: "string \<Rightarrow> bytes option" where
  "pemToArrayBuffer pem =
     (let b64 = replace_g [Plus Space] (\<lambda>_. [])
                  (replace_first (lits ''-----END PUBLIC KEY-----'') (\<lambda>_. [])
                    (replace_first (lits ''-----BEGIN PUBLIC KEY-----'') (\<lambda>_. []) pem))
      in map_option (map of_char) (atob b64))"

definition importPublicKey :: "'k platform \<Rightarrow> string \<Rightarrow> 'k event list \<times> (exn + 'k)" where
  "importPublicKey pf pem =
     (case pemToArrayBuffer pem of
        None \<Rightarrow> ([], Inl InvalidCharacterError)
      | Some spki \<Rightarrow>
          ([ImportKey spki],
           case importKey pf spki of None \<Rightarrow> Inl ImportRejected | Some k \<Rightarrow> Inr k))"

definition verifySignature ::
  "'k platform \<Rightarrow> 'k \<Rightarrow> string \<Rightarrow> string \<Rightarrow> 'k event list \<times> (exn + bool)" where
  "verifySignature pf publicKey signatureB64 dataStr =
     (case atob signatureB64 of
        None \<Rightarrow> ([], Inl InvalidCharacterError)
      | Some s \<Rightarrow>
          (let sigBytes = map of_char s;
               enc = TextEncoder_encode dataStr
           in ([Verify publicKey sigBytes enc],
               case verify pf publicKey sigBytes enc of
                 None \<Rightarrow> Inl VerifyRejected
               | Some ok \<Rightarrow> Inr ok)))"

subsection \<open>The main flow of runtime1.js\<close>

text \<open>
  The shell document gives the text of the three transport elements, \<open>None\<close> for an
  element that \<^verbatim>\<open>getElementById\<close> does not find. A run ends with the children of
  \<^verbatim>\<open>document.body\<close>, what was written to the console, and the trace of the Web Crypto and
  compiler calls in the order they were made.
\<close>

record shell =
  flo_payload :: "string option"
  flo_signature :: "string option"
  flo_public_pem :: "string option"

record 'k run =
  body :: "node list"
  console :: "exn list"
  trace :: "'k event list"

definition missing_msg :: string where
  "missing_msg = ''<pre style=\"color:red\">FLO runtime: missing payload or signature or public key.</pre>''"

definition integrity_msg :: string where
  "integrity_msg = ''<pre style=\"color:red\">FLO integrity check failed. Rendering aborted.</pre>''"

definition runtime_error_msg :: string where
  "runtime_error_msg = ''<pre style=\"color:red\">FLO runtime error: see console.</pre>''"

definition runtime1_try ::
  "'k platform \<Rightarrow> string \<Rightarrow> string \<Rightarrow> string \<Rightarrow> (exn \<times> 'k event list) + 'k run" where
  \<comment> \<open>the \<^verbatim>\<open>try\<close> block from the three texts on; \<open>Inl\<close> is what reaches \<^verbatim>\<open>catch\<close>\<close>
  "runtime1_try pf payloadText sigText pemText =
     (let floB64 = trim payloadText;
          sigB64 = trim sigText;
          pubPem = trim pemText
      in case atob floB64 of
           None \<Rightarrow> Inl (InvalidCharacterError, [])
         | Some floSource \<Rightarrow>
             (case importPublicKey pf pubPem of
                (t1, Inl e) \<Rightarrow> Inl (e, t1)
              | (t1, Inr publicKey) \<Rightarrow>
                  (case verifySignature pf publicKey sigB64 floSource of
                     (t2, Inl e) \<Rightarrow> Inl (e, t1 @ t2)
                   | (t2, Inr ok) \<Rightarrow>
                       if \<not> ok
                       then Inr \<lparr>body = [Fragment integrity_msg], console = [], trace = t1 @ t2\<rparr>
                       else
                         (let context = [''user'' \<mapsto> ''Scholar''];
                              html = clientCompileFLO floSource context;
                              t3 = t1 @ t2 @ [Compile floSource]
                          in case parseHTML pf html of
                               None \<Rightarrow> Inl (DomError, t3)
                             | Some nodes \<Rightarrow>
                                 Inr \<lparr>body = nodes @ [VerifiedNote], console = [],
                                      trace = t3\<rparr>))))"

definition runtime1_main :: "'k platform \<Rightarrow> shell \<Rightarrow> 'k run" where
  "runtime1_main pf doc =
     (case (flo_payload doc, flo_signature doc, flo_public_pem doc) of
        (Some payloadText, Some sigText, Some pemText) \<Rightarrow>
          (case runtime1_try pf payloadText sigText pemText of
             Inl (err, t) \<Rightarrow> \<lparr>body = [Fragment runtime_error_msg], console = [err], trace = t\<rparr>
           | Inr r \<Rightarrow> r)
      | _ \<Rightarrow> \<lparr>body = [Fragment missing_msg], console = [], trace = []\<rparr>)"

section \<open>The compilers as computations that may not return\<close>

text \<open>
  The compilers have no loop of their own: they call \<^verbatim>\<open>String.prototype.replace\<close> sixteen
  times, and the loops are those of the regular-expression engine, the backtracking of a
  match and the scan of \<^verbatim>\<open>replace\<close> over the input. Here the same matcher, the same scan and
  the same chains are written as computations whose result is \<open>None\<close> when they do not
  return. No operation of the compilers raises on a string and a context of strings, so
  a call that returns, returns a string.
\<close>

partial_function (option) rmatch_run ::
  "regex \<Rightarrow> string \<Rightarrow> string \<Rightarrow> string list \<Rightarrow> (string list \<times> string) option option" where
  "rmatch_run p s mk caps =
     (case p of
        [] \<Rightarrow> Some (Some (caps, s))
      | One c # k \<Rightarrow>
          (case s of
             [] \<Rightarrow> Some None
           | x # xs \<Rightarrow> if cc_ok c x then rmatch_run k xs mk caps else Some None)
      | Star c # k \<Rightarrow>
          (case s of
             [] \<Rightarrow> rmatch_run k [] mk caps
           | x # xs \<Rightarrow>
               if cc_ok c x
               then Option.bind (rmatch_run (Star c # k) xs mk caps)
                      (\<lambda>res. case res of
                                Some r \<Rightarrow> Some (Some r)
                              | None \<Rightarrow> rmatch_run k (x # xs) mk caps)
               else rmatch_run k (x # xs) mk caps)
      | Plus c # k \<Rightarrow>
          (case s of
             [] \<Rightarrow> Some None
           | x # xs \<Rightarrow> if cc_ok c x then rmatch_run (Star c # k) xs mk caps else Some None)
      | Lazy c # k \<Rightarrow>
          (case s of
             [] \<Rightarrow> rmatch_run k [] mk caps
           | x # xs \<Rightarrow>
               Option.bind (rmatch_run k (x # xs) mk caps)
                 (\<lambda>res. case res of
                           Some r \<Rightarrow> Some (Some r)
                         | None \<Rightarrow> if cc_ok c x then rmatch_run (Lazy c # k) xs mk caps
                                   else Some None))
      | GOpen # k \<Rightarrow> rmatch_run k s s caps
      | GClose # k \<Rightarrow> rmatch_run k s mk (caps @ [take (length mk - length s) mk]))"

definition re_exec_run :: "regex \<Rightarrow> string \<Rightarrow> (string list \<times> nat) option option" where
  "re_exec_run r s =
     Option.bind (rmatch_run r s s [])
       (\<lambda>res. Some (map_option (\<lambda>(caps, rest). (caps, length s - length rest)) res))"

partial_function (option) replace_run ::
  "regex \<Rightarrow> (string list \<Rightarrow> string) \<Rightarrow> string \<Rightarrow> string option" where
  "replace_run r f s =
     Option.bind (re_exec_run r s)
       (\<lambda>m. case s of
               [] \<Rightarrow> (case m of Some (caps, n) \<Rightarrow> Some (f caps) | None \<Rightarrow> Some [])
             | c # cs \<Rightarrow>
                 (case m of
                    None \<Rightarrow> Option.bind (replace_run r f cs) (\<lambda>t. Some (c # t))
                  | Some (caps, n) \<Rightarrow>
                      if n = 0 then Option.bind (replace_run r f cs) (\<lambda>t. Some (f caps @ c # t))
                      else Option.bind (replace_run r f (drop n (c # cs)))
                             (\<lambda>t. Some (f caps @ t))))"

fun apply_rules_run :: "rule list \<Rightarrow> string \<Rightarrow> string option" where
  "apply_rules_run [] html = Some html"
| "apply_rules_run ((r, rep) # rules) html =
     Option.bind (replace_run r (expand rep) html) (apply_rules_run rules)"

definition compileFLOtoHTML_run :: "string \<Rightarrow> bindings \<Rightarrow> string option" where
  "compileFLOtoHTML_run floSource context =
     Option.bind (replace_run placeholder_re (server_callback context) floSource)
       (apply_rules_run server_rules)"

definition clientCompileFLO_run :: "string \<Rightarrow> bindings \<Rightarrow> string option" where
  "clientCompileFLO_run src context =
     Option.bind (replace_run placeholder_re (client_callback context) src)
       (apply_rules_run client_rules)"

definition clientCompileFLO_123_run :: "string \<Rightarrow> bindings \<Rightarrow> string option" where
  "clientCompileFLO_123_run src context =
     Option.bind (replace_run placeholder_re (client_callback_123 context) src)
       (apply_rules_run client_rules_123)"

section \<open>Auxiliary definitions\<close>

text \<open>A pattern matches somewhere in a string when it matches at the head of a suffix.\<close>

fun matches_somewhere :: "regex \<Rightarrow> string \<Rightarrow> bool" where
  "matches_somewhere r [] = (re_exec r [] \<noteq> None)"
| "matches_somewhere r (c # cs) = (re_exec r (c # cs) \<noteq> None \<or> matches_somewhere r cs)"

text \<open>
  Two platforms for concrete runs: both import every key and parse every fragment; the
  first accepts every signature, the second rejects every signature.
\<close>

definition accepting :: "unit platform" where
  "accepting =
     \<lparr>importKey = (\<lambda>spki. Some ()), verify = (\<lambda>k sg d. Some True),
      parseHTML = (\<lambda>html. Some [Fragment html])\<rparr>"

definition rejecting :: "unit platform" where
  "rejecting =
     \<lparr>importKey = (\<lambda>spki. Some ()), verify = (\<lambda>k sg d. Some False),
      parseHTML = (\<lambda>html. Some [Fragment html])\<rparr>"

text \<open>
  A shell whose payload is the base64 of \<^verbatim>\<open>Hi {{user}}\<close>, with a signature and a key that
  decode, and the same shell with a signature that is not base64.
\<close>

definition shell_ok :: shell where
  "shell_ok =
     \<lparr>flo_payload = Some ''SGkge3t1c2VyfX0='', flo_signature = Some ''SGk='',
      flo_public_pem = Some ''SGk=''\<rparr>"

definition shell_bad_signature :: shell where
  "shell_bad_signature =
     \<lparr>flo_payload = Some ''SGkge3t1c2VyfX0='', flo_signature = Some ''!'',
      flo_public_pem = Some ''SGk=''\<rparr>"

definition shell_no_signature :: shell where
  "shell_no_signature =
     \<lparr>flo_payload = Some ''SGkge3t1c2VyfX0='', flo_signature = None,
      flo_public_pem = Some ''SGk=''\<rparr>"

text \<open>
  A platform whose \<open>verify\<close> accepts exactly one byte sequence as the signed data (as a real
  signature does), and a shell whose payload is the base64 of the UTF-8 bytes
  48 69 20 C3 A9 of \<^verbatim>\<open>Hi \<close> followed by e-acute, as \<^verbatim>\<open>buildShell\<close> of the server makes it.
\<close>

definition verifies_only :: "bytes \<Rightarrow> unit platform" where
  "verifies_only accepted =
     \<lparr>importKey = (\<lambda>spki. Some ()), verify = (\<lambda>k sg d. Some (d = accepted)),
      parseHTML = (\<lambda>html. Some [Fragment html])\<rparr>"

definition shell_non_ascii :: shell where
  "shell_non_ascii =
     \<lparr>flo_payload = Some ''SGkgw6k='', flo_signature = Some ''SGk='',
      flo_public_pem = Some ''SGk=''\<rparr>"


text \<open>
  A stretch of text is \<open>untouched\<close> when no pattern of the rule table matches at any of its
  positions, whatever text follows it, and \<open>placeholder_free\<close> when the placeholder pattern
  matches at none of its positions, whatever follows. A text \<open>compiles_alone\<close> when the
  compiler's output for it followed by any text is its own output followed by the output
  for that text: no match that begins in it reaches beyond it or depends on what follows.
\<close>

definition untouched :: "string \<Rightarrow> bool" where
  "untouched w \<longleftrightarrow>
     (\<forall>(r, rep)\<in>set client_rules. \<forall>t following.
        suffix t w \<and> t \<noteq> [] \<longrightarrow> re_exec r (t @ following) = None)"

definition placeholder_free :: "string \<Rightarrow> bool" where
  "placeholder_free w \<longleftrightarrow>
     (\<forall>t following. suffix t w \<and> t \<noteq> [] \<longrightarrow> re_exec placeholder_re (t @ following) = None)"

definition compiles_alone :: "string \<Rightarrow> bindings \<Rightarrow> bool" where
  "compiles_alone pre context \<longleftrightarrow>
     (\<forall>following. clientCompileFLO (pre @ following) context =
        clientCompileFLO pre context @ clientCompileFLO following context)"

text \<open>
  The rules of the table whose pattern is a literal tag: the text a pattern of single
  literal characters spells, and the twelve tags with their replacements.
\<close>

fun literal_of :: "regex \<Rightarrow> string option" where
  "literal_of [] = Some []"
| "literal_of (One (Lit c) # k) = map_option ((#) c) (literal_of k)"
| "literal_of (i # k) = None"

definition simple_tags :: "(string \<times> string) list" where
  "simple_tags =
    [(''</flo:page>'', ''</div>''),
     (''<flo:header>'', ''<header class=\"flo-header\">''), (''</flo:header>'', ''</header>''),
     (''<flo:nav>'', ''<nav class=\"flo-nav\">''), (''</flo:nav>'', ''</nav>''),
     (''<flo:logo>'', ''<div class=\"flo-logo\">''), (''</flo:logo>'', ''</div>''),
     (''<flo:main>'', ''<main class=\"flo-main\">''), (''</flo:main>'', ''</main>''),
     (''</flo:card>'', ''</section>''),
     (''<flo:footer>'', ''<footer class=\"flo-footer\">''), (''</flo:footer>'', ''</footer>'')]"

section \<open>The runs of the consumer\<close>

lemma importPublicKey_cases:
  "importPublicKey pf pem = (t, r) \<Longrightarrow>
     (t = [] \<and> r = Inl InvalidCharacterError \<and> pemToArrayBuffer pem = None) \<or>
     (\<exists>spki. pemToArrayBuffer pem = Some spki \<and> t = [ImportKey spki] \<and>
        (case importKey pf spki of None \<Rightarrow> r = Inl ImportRejected | Some k \<Rightarrow> r = Inr k))"
  by (auto simp: importPublicKey_def split: option.splits)

lemma verifySignature_cases:
  "verifySignature pf k sg d = (t, r) \<Longrightarrow>
     (t = [] \<and> r = Inl InvalidCharacterError \<and> atob sg = None) \<or>
     (\<exists>s. atob sg = Some s \<and> t = [Verify k (map of_char s) (TextEncoder_encode d)] \<and>
        (case verify pf k (map of_char s) (TextEncoder_encode d) of
           None \<Rightarrow> r = Inl VerifyRejected | Some ok \<Rightarrow> r = Inr ok))"
  by (auto simp: verifySignature_def Let_def split: option.splits)

lemma run_accepting_ok:
  "runtime1_main accepting shell_ok =
     \<lparr>body = [Fragment ''Hi Scholar'', VerifiedNote], console = [],
      trace = [ImportKey [72, 105],
               Verify () [72, 105] [72, 105, 32, 123, 123, 117, 115, 101, 114, 125, 125],
               Compile ''Hi {{user}}'']\<rparr>"
  by code_simp

lemma run_rejecting_ok:
  "runtime1_main rejecting shell_ok =
     \<lparr>body = [Fragment integrity_msg], console = [],
      trace = [ImportKey [72, 105],
               Verify () [72, 105] [72, 105, 32, 123, 123, 117, 115, 101, 114, 125, 125]]\<rparr>"
  by code_simp

lemma run_rejecting_bad_signature:
  "runtime1_main rejecting shell_bad_signature =
     \<lparr>body = [Fragment runtime_error_msg], console = [InvalidCharacterError],
      trace = [ImportKey [72, 105]]\<rparr>"
  by code_simp

lemma atob_payload: "atob (trim ''SGkge3t1c2VyfX0='') = Some ''Hi {{user}}''"
  by code_simp

lemma encode_payload:
  "TextEncoder_encode ''Hi {{user}}'' = [72, 105, 32, 123, 123, 117, 115, 101, 114, 125, 125]"
  by code_simp

lemma messages_distinct: "integrity_msg \<noteq> runtime_error_msg"
  by code_simp

lemma encode_ascii:
  "\<forall>c\<in>set s. (of_char c :: nat) < 128 \<Longrightarrow> TextEncoder_encode s = map of_char s"
  by (induction s) (auto simp: TextEncoder_encode_def of_char_def)

text \<open>
  C9. When the payload, the signature or the public key element is absent, the run ends
  with the missing-input message as the only content of the body, nothing on the console
  and an empty trace: no key was imported and no signature was verified.
\<close>

theorem missing_input_aborts_before_crypto:
  "flo_payload doc = None \<or> flo_signature doc = None \<or> flo_public_pem doc = None \<Longrightarrow>
   runtime1_main pf doc = \<lparr>body = [Fragment missing_msg], console = [], trace = []\<rparr>"
  by (auto simp: runtime1_main_def split: option.splits)

theorem missing_input_aborts_before_crypto_witness:
  "flo_signature shell_no_signature = None \<and>
   runtime1_main accepting shell_no_signature =
     \<lparr>body = [Fragment missing_msg], console = [], trace = []\<rparr>"
proof -
  have h: "flo_signature shell_no_signature = None" by (simp add: shell_no_signature_def)
  then have "flo_payload shell_no_signature = None \<or> flo_signature shell_no_signature = None
      \<or> flo_public_pem shell_no_signature = None" by simp
  from missing_input_aborts_before_crypto [OF this, of accepting] h show ?thesis by simp
qed

text \<open>
  The order of the calls in a run. A run compiles a source only at the end of the trace
  \<open>[ImportKey, Verify, Compile]\<close>: the source is the decoded payload, the key is the one
  imported from the key element of the shell, the signature is the decoded signature
  element, and the verification returned true over the bytes \<^verbatim>\<open>TextEncoder\<close> makes of the
  source. A run whose verification returned false compiles nothing and leaves the
  integrity message as the only content of the body. The bytes \<^verbatim>\<open>TextEncoder\<close> makes are
  the decoded bytes when all of them are below 128.
\<close>

lemma compile_only_after_verification:
  "(Compile src \<in> set (trace (runtime1_main pf doc)) \<longrightarrow>
      (\<exists>payloadText sigText pemText spki k s.
          flo_payload doc = Some payloadText \<and> flo_signature doc = Some sigText \<and>
          flo_public_pem doc = Some pemText \<and>
          atob (trim payloadText) = Some src \<and>
          pemToArrayBuffer (trim pemText) = Some spki \<and> importKey pf spki = Some k \<and>
          atob (trim sigText) = Some s \<and>
          verify pf k (map of_char s) (TextEncoder_encode src) = Some True \<and>
          trace (runtime1_main pf doc) =
            [ImportKey spki, Verify k (map of_char s) (TextEncoder_encode src), Compile src])) \<and>
   (Verify k' sg' d' \<in> set (trace (runtime1_main pf doc)) \<and> verify pf k' sg' d' = Some False \<longrightarrow>
      (\<forall>s. Compile s \<notin> set (trace (runtime1_main pf doc))) \<and>
      body (runtime1_main pf doc) = [Fragment integrity_msg]) \<and>
   ((\<forall>c\<in>set src. (of_char c :: nat) < 128) \<longrightarrow> TextEncoder_encode src = map of_char src)"
  using encode_ascii [of src]
  by (auto simp: runtime1_main_def runtime1_try_def Let_def
      split: option.splits sum.splits prod.splits if_splits
      dest!: importPublicKey_cases verifySignature_cases)

text \<open>
  C1, at an input where the code departs from it. The payload of the shell decodes to the
  five bytes 48 69 20 C3 A9, the UTF-8 bytes that the server encoded and signed
  (\<^verbatim>\<open>buildShell\<close> and \<^verbatim>\<open>signString\<close>). \<^verbatim>\<open>verifySignature\<close> does not verify these bytes: it
  encodes the decoded string once more and hands the seven bytes 48 69 20 C3 83 C2 A9 to
  \<^verbatim>\<open>crypto.subtle.verify\<close>. With a signature over the decoded bytes the verification
  returns false and the run ends with the integrity message; with a signature over the
  seven bytes it returns true and the run compiles the decoded source, whose bytes were
  never verified. The order of the calls is the one the claim gives
  (\<open>compile_only_after_verification\<close>); the bytes verified are not.
\<close>

theorem verification_is_over_reencoded_bytes:
  "atob (trim ''SGkgw6k='') = Some [CHR 0x48, CHR 0x69, CHR 0x20, CHR 0xC3, CHR 0xA9] \<and>
   runtime1_main (verifies_only [0x48, 0x69, 0x20, 0xC3, 0xA9]) shell_non_ascii =
     \<lparr>body = [Fragment integrity_msg], console = [],
      trace = [ImportKey [0x48, 0x69],
               Verify () [0x48, 0x69] [0x48, 0x69, 0x20, 0xC3, 0x83, 0xC2, 0xA9]]\<rparr> \<and>
   runtime1_main (verifies_only [0x48, 0x69, 0x20, 0xC3, 0x83, 0xC2, 0xA9]) shell_non_ascii =
     \<lparr>body = [Fragment [CHR 0x48, CHR 0x69, CHR 0x20, CHR 0xC3, CHR 0xA9], VerifiedNote], console = [],
      trace = [ImportKey [0x48, 0x69],
               Verify () [0x48, 0x69] [0x48, 0x69, 0x20, 0xC3, 0x83, 0xC2, 0xA9],
               Compile [CHR 0x48, CHR 0x69, CHR 0x20, CHR 0xC3, CHR 0xA9]]\<rparr> \<and>
   [0x48, 0x69, 0x20, 0xC3, 0x83, 0xC2, 0xA9] \<noteq>
     (map of_char [CHR 0x48, CHR 0x69, CHR 0x20, CHR 0xC3, CHR 0xA9] :: bytes)"
  by code_simp

text \<open>
  C2, as stated: a run that fails on a signature that is not base64 and a run that fails
  on a signature that does not verify would show the same body. They do not: the first
  shows the runtime-error message (and logs the exception), the second the integrity
  message.
\<close>

theorem malformed_signature_distinguishable:
  "atob (trim ''!'') = None \<and>
   body (runtime1_main rejecting shell_bad_signature) = [Fragment runtime_error_msg] \<and>
   body (runtime1_main rejecting shell_ok) = [Fragment integrity_msg] \<and>
   body (runtime1_main rejecting shell_bad_signature) \<noteq> body (runtime1_main rejecting shell_ok)"
proof -
  have "atob (trim ''!'') = None" by code_simp
  then show ?thesis
    by (simp add: run_rejecting_bad_signature run_rejecting_ok messages_distinct [symmetric])
qed

text \<open>
  C2, amended. With the three elements present, a run ends in one of three bodies: the
  integrity message alone, the runtime-error message alone, or the parsed fragment
  followed by the banner. Key material that does not decode or import and a signature that
  is not base64 end in the runtime-error message with the exception on the console; a
  verification that returns false ends in the integrity message with nothing on the
  console. The two messages differ.
\<close>

theorem failures_end_in_one_of_two_messages:
  assumes "flo_payload doc = Some payloadText" "flo_signature doc = Some sigText"
    "flo_public_pem doc = Some pemText"
  shows "(body (runtime1_main pf doc) = [Fragment integrity_msg] \<or>
          body (runtime1_main pf doc) = [Fragment runtime_error_msg] \<or>
          (\<exists>src nodes. atob (trim payloadText) = Some src \<and>
             parseHTML pf (clientCompileFLO src [''user'' \<mapsto> ''Scholar'']) = Some nodes \<and>
             body (runtime1_main pf doc) = nodes @ [VerifiedNote] \<and>
             Compile src \<in> set (trace (runtime1_main pf doc)))) \<and>
         (pemToArrayBuffer (trim pemText) = None \<or>
          (\<exists>spki. pemToArrayBuffer (trim pemText) = Some spki \<and> importKey pf spki = None) \<or>
          atob (trim sigText) = None \<longrightarrow>
            body (runtime1_main pf doc) = [Fragment runtime_error_msg] \<and>
            console (runtime1_main pf doc) \<noteq> []) \<and>
         ((\<exists>k sg d. Verify k sg d \<in> set (trace (runtime1_main pf doc)) \<and>
                     verify pf k sg d = Some False) \<longrightarrow>
            body (runtime1_main pf doc) = [Fragment integrity_msg] \<and>
            console (runtime1_main pf doc) = []) \<and>
         integrity_msg \<noteq> runtime_error_msg"
  using assms messages_distinct
  by (auto simp: runtime1_main_def runtime1_try_def Let_def
      split: option.splits sum.splits prod.splits if_splits
      dest!: importPublicKey_cases verifySignature_cases)

theorem failures_end_in_one_of_two_messages_witness:
  "flo_payload shell_bad_signature = Some ''SGkge3t1c2VyfX0='' \<and>
   flo_signature shell_bad_signature = Some ''!'' \<and>
   flo_public_pem shell_bad_signature = Some ''SGk='' \<and>
   atob (trim ''!'') = None \<and>
   body (runtime1_main rejecting shell_bad_signature) = [Fragment runtime_error_msg] \<and>
   console (runtime1_main rejecting shell_bad_signature) \<noteq> [] \<and>
   flo_payload shell_ok = Some ''SGkge3t1c2VyfX0='' \<and>
   flo_signature shell_ok = Some ''SGk='' \<and>
   flo_public_pem shell_ok = Some ''SGk='' \<and>
   Verify () [72, 105] (TextEncoder_encode ''Hi {{user}}'') \<in> set (trace (runtime1_main rejecting shell_ok)) \<and>
   verify rejecting () [72, 105] (TextEncoder_encode ''Hi {{user}}'') = Some False \<and>
   body (runtime1_main rejecting shell_ok) = [Fragment integrity_msg] \<and>
   console (runtime1_main rejecting shell_ok) = []"
proof -
  have a: "flo_payload shell_bad_signature = Some ''SGkge3t1c2VyfX0=''"
    "flo_signature shell_bad_signature = Some ''!''"
    "flo_public_pem shell_bad_signature = Some ''SGk=''"
    by (simp_all add: shell_bad_signature_def)
  have b: "flo_payload shell_ok = Some ''SGkge3t1c2VyfX0=''"
    "flo_signature shell_ok = Some ''SGk=''"
    "flo_public_pem shell_ok = Some ''SGk=''"
    by (simp_all add: shell_ok_def)
  have c: "atob (trim ''!'') = None" by code_simp
  have d: "Verify () [72, 105] (TextEncoder_encode ''Hi {{user}}'')
             \<in> set (trace (runtime1_main rejecting shell_ok))"
    by (simp add: run_rejecting_ok encode_payload)
  have e: "verify rejecting () [72, 105] (TextEncoder_encode ''Hi {{user}}'') = Some False"
    by (simp add: rejecting_def)
  from failures_end_in_one_of_two_messages [OF a, of rejecting]
       failures_end_in_one_of_two_messages [OF b, of rejecting] a b c d e
  show ?thesis by blast
qed

section \<open>The three compilers agree\<close>

lemma interpolation_callbacks_agree:
  "js_String (if truthy x then x else Str []) = (if x \<noteq> Undefined then js_String x else [])"
  by (cases x) auto

text \<open>
  C4. For every source and every context whose own properties are strings, the producer's
  \<^verbatim>\<open>compileFLOtoHTML\<close>, the consumer's \<^verbatim>\<open>clientCompileFLO\<close> of runtime1.js and runtime12.js and
  the one of runtime123.js return the same string.
\<close>

lemma callbacks_agree:
  "server_callback context = client_callback context"
  "client_callback_123 context = client_callback context"
  by (auto simp: server_callback_def client_callback_def client_callback_123_def Let_def
      interpolation_callbacks_agree)

lemma rule_tables_agree: "server_rules = client_rules" "client_rules_123 = client_rules"
  by (simp_all add: server_rules_def client_rules_def client_rules_123_def)

theorem producer_and_consumers_agree:
  "compileFLOtoHTML src context = clientCompileFLO src context \<and>
   clientCompileFLO_123 src context = clientCompileFLO src context"
  by (simp add: compileFLOtoHTML_def clientCompileFLO_def clientCompileFLO_123_def
      callbacks_agree rule_tables_agree)

text \<open>The first scenario of the specification.\<close>

lemma scenario_home_page:
  "clientCompileFLO ''<flo:page title=\"Home\"><flo:header>Hi {{user}}</flo:header></flo:page>''
     [''user'' \<mapsto> ''Ada''] =
   ''<div class=\"flo-page\" data-title=\"Home\"><header class=\"flo-header\">Hi Ada</header></div>''"
  by code_simp

section \<open>Facts about the matcher and the replacement loop\<close>

lemma rmatch_lits:
  "rmatch (lits p @ k) s mk caps =
     (if prefix p s then rmatch k (drop (length p) s) mk caps else None)"
proof (induction p arbitrary: s)
  case Nil
  then show ?case by (simp add: lits_def)
next
  case (Cons a p)
  show ?case
  proof (cases s)
    case Nil
    then show ?thesis by (simp add: lits_def)
  next
    case (Cons x xs)
    with Cons.IH[of xs] show ?thesis by (auto simp: lits_def)
  qed
qed

lemma rmatch_Star_stop:
  "s = [] \<or> \<not> cc_ok c (hd s) \<Longrightarrow> rmatch (Star c # k) s mk caps = rmatch k s mk caps"
  by (cases s) auto

lemma rmatch_Star_greedy:
  "\<forall>x\<in>set a. cc_ok c x \<Longrightarrow> rmatch (Star c # k) s mk caps = Some r \<Longrightarrow>
   rmatch (Star c # k) (a @ s) mk caps = Some r"
  by (induction a) auto

lemma rmatch_Star_fail:
  "\<forall>t. suffix t a \<longrightarrow> rmatch k (t @ s) mk caps = None \<Longrightarrow>
   s = [] \<or> \<not> cc_ok c (hd s) \<Longrightarrow>
   rmatch (Star c # k) (a @ s) mk caps = None"
proof (induction a)
  case Nil
  then show ?case by (simp add: rmatch_Star_stop)
next
  case (Cons x a)
  have "rmatch (Star c # k) (a @ s) mk caps = None"
    using Cons by (auto simp: suffix_Cons)
  moreover have "rmatch k ((x # a) @ s) mk caps = None"
    using Cons.prems(1) by blast
  ultimately show ?case by simp
qed

lemma rmatch_Star_last:
  assumes ok: "\<forall>x\<in>set a2. cc_ok c x" "\<forall>x\<in>set a1. cc_ok c x"
    and stop: "s = [] \<or> \<not> cc_ok c (hd s)"
    and later: "\<forall>t. strict_suffix t a2 \<longrightarrow> rmatch k (t @ s) mk caps = None"
    and here: "rmatch k (a2 @ s) mk caps = Some r"
  shows "rmatch (Star c # k) (a1 @ a2 @ s) mk caps = Some r"
proof -
  have "rmatch (Star c # k) (a2 @ s) mk caps = Some r"
  proof (cases a2)
    case Nil
    with here stop show ?thesis by (simp add: rmatch_Star_stop)
  next
    case (Cons x a)
    have "rmatch k (t @ s) mk caps = None" if "suffix t a" for t
    proof -
      from that have "length t \<le> length a" by (rule suffix_length_le)
      then have "t \<noteq> a2" using Cons by auto
      moreover have "suffix t a2" using that Cons by (simp add: suffix_Cons)
      ultimately show ?thesis using later by (simp add: strict_suffix_def)
    qed
    then have "rmatch (Star c # k) (a @ s) mk caps = None"
      using stop by (intro rmatch_Star_fail) auto
    with here ok Cons show ?thesis by simp
  qed
  with ok show ?thesis by (simp add: rmatch_Star_greedy)
qed

lemma rmatch_Lazy_fail:
  "\<forall>t. suffix t u \<longrightarrow> rmatch k (t @ s) mk caps = None \<Longrightarrow>
   s = [] \<or> \<not> cc_ok c (hd s) \<Longrightarrow>
   rmatch (Lazy c # k) (u @ s) mk caps = None"
proof (induction u)
  case Nil
  then show ?case by (cases s) auto
next
  case (Cons x u)
  have "rmatch (Lazy c # k) (u @ s) mk caps = None"
    using Cons by (auto simp: suffix_Cons)
  moreover have "rmatch k ((x # u) @ s) mk caps = None"
    using Cons.prems(1) by blast
  ultimately show ?case by simp
qed

lemma replace_g_skip:
  "re_exec r (x # s) = None \<Longrightarrow> replace_g r f (x # s) = x # replace_g r f s"
  by simp

lemma re_exec_head:
  "x \<noteq> a \<Longrightarrow> re_exec (One (Lit a) # k) (x # s) = None"
  by (simp add: re_exec_def)

lemma replace_g_skip_free:
  "a \<notin> set w \<Longrightarrow> replace_g (One (Lit a) # k) f (w @ X) = w @ replace_g (One (Lit a) # k) f X"
  by (induction w) (auto simp: re_exec_head)

lemma replace_g_id:
  "\<not> matches_somewhere r s \<Longrightarrow> replace_g r f s = s"
proof (induction s)
  case Nil
  then show ?case by (cases "re_exec r []") auto
next
  case (Cons x s)
  then show ?case by (cases "re_exec r (x # s)") auto
qed

lemma matches_somewhere_suffix:
  "\<not> matches_somewhere r s \<Longrightarrow> suffix t s \<Longrightarrow> \<not> matches_somewhere r t"
  by (induction s) (auto simp: suffix_Cons)

lemma apply_rules_id:
  "\<forall>(r, rep)\<in>set rules. \<not> matches_somewhere r s \<Longrightarrow> apply_rules rules s = s"
  unfolding apply_rules_def
  by (induction rules) (auto simp: replace_g_id)

lemma prefix_no_sep:
  "prefix p (t @ x # y) \<Longrightarrow> x \<notin> set p \<Longrightarrow> prefix p t"
  by (auto simp: prefix_append prefix_Cons)


lemma apply_rules_Cons:
  "apply_rules ((r, rep) # rules) s = apply_rules rules (replace_g r (expand rep) s)"
  by (simp add: apply_rules_def)


section \<open>Sources that no pattern matches\<close>

text \<open>
  C6. A source in which the placeholder pattern matches nowhere and no pattern of the
  rule table matches anywhere is returned unchanged by each of the three compilers.
  Unknown tags, a page tag without a title and a link without its closing tag are such
  sources (the witness).
\<close>

theorem unmatched_source_unchanged:
  assumes "\<not> matches_somewhere placeholder_re src"
    and "\<forall>(r, rep)\<in>set client_rules. \<not> matches_somewhere r src"
  shows "clientCompileFLO src context = src \<and> compileFLOtoHTML src context = src \<and>
         clientCompileFLO_123 src context = src"
proof -
  have "clientCompileFLO src context = src"
    using assms by (simp add: clientCompileFLO_def replace_g_id apply_rules_id)
  moreover have "compileFLOtoHTML src context = src"
    using assms by (simp add: compileFLOtoHTML_def replace_g_id apply_rules_id rule_tables_agree)
  moreover have "clientCompileFLO_123 src context = src"
    using assms by (simp add: clientCompileFLO_123_def replace_g_id apply_rules_id rule_tables_agree)
  ultimately show ?thesis by simp
qed

theorem unmatched_source_unchanged_witness:
  "clientCompileFLO ''<p>{ {a} } <flo:widget/><flo:page><flo:link href=\"x\">y</p>'' Map.empty
     = ''<p>{ {a} } <flo:widget/><flo:page><flo:link href=\"x\">y</p>'' \<and>
   compileFLOtoHTML ''<p>{ {a} } <flo:widget/><flo:page><flo:link href=\"x\">y</p>'' Map.empty
     = ''<p>{ {a} } <flo:widget/><flo:page><flo:link href=\"x\">y</p>'' \<and>
   clientCompileFLO_123 ''<p>{ {a} } <flo:widget/><flo:page><flo:link href=\"x\">y</p>'' Map.empty
     = ''<p>{ {a} } <flo:widget/><flo:page><flo:link href=\"x\">y</p>''"
proof -
  have a: "\<not> matches_somewhere placeholder_re
             ''<p>{ {a} } <flo:widget/><flo:page><flo:link href=\"x\">y</p>''"
    by code_simp
  have b: "\<forall>(r, rep)\<in>set client_rules. \<not> matches_somewhere r
             ''<p>{ {a} } <flo:widget/><flo:page><flo:link href=\"x\">y</p>''"
    by code_simp
  from unmatched_source_unchanged [OF a b] show ?thesis .
qed


section \<open>Interpolation\<close>

lemma ident_not_space: "is_ident c \<Longrightarrow> \<not> is_space c"
  by (auto simp: is_ident_def is_space_def Let_def)

lemma brace_not_class: "\<not> is_space CHR ''}''" "\<not> is_ident CHR ''}''"
  by (simp_all add: is_ident_def is_space_def)

lemma rmatch_placeholder_tail:
  assumes "\<forall>c\<in>set ws. is_space c"
  shows "rmatch (Star Space # lits ''}}'') (ws @ ''}}'' @ rest) mk caps = Some (caps, rest)"
proof -
  have "rmatch (Star Space # lits ''}}'') (''}}'' @ rest) mk caps = Some (caps, rest)"
    by (simp add: lits_def brace_not_class)
  moreover have "\<forall>x\<in>set ws. cc_ok Space x" using assms by simp
  ultimately show ?thesis
    by (rule rmatch_Star_greedy [where a = ws and s = "''}}'' @ rest", rotated])
qed

lemma rmatch_placeholder_name:
  assumes "\<forall>c\<in>set v. is_ident c" "\<forall>c\<in>set ws. is_space c"
  shows "rmatch (Star Ident # GClose # Star Space # lits ''}}'') (v @ ws @ ''}}'' @ rest) mk caps =
           Some (caps @ [take (length mk - length (ws @ ''}}'' @ rest)) mk], rest)"
proof -
  let ?s = "ws @ ''}}'' @ rest"
  let ?k = "GClose # Star Space # lits ''}}''"
  have stop: "?s = [] \<or> \<not> cc_ok Ident (hd ?s)"
    using assms(2) by (cases ws) (auto simp: brace_not_class dest: ident_not_space)
  have "rmatch ?k ?s mk caps = Some (caps @ [take (length mk - length ?s) mk], rest)"
    using rmatch_placeholder_tail [OF assms(2), of rest mk] by simp
  then have "rmatch (Star Ident # ?k) ?s mk caps =
          Some (caps @ [take (length mk - length ?s) mk], rest)"
    by (simp only: rmatch_Star_stop [OF stop])
  moreover have "\<forall>x\<in>set v. cc_ok Ident x" using assms by simp
  ultimately show ?thesis
    by (rule rmatch_Star_greedy [where a = v and s = ?s, rotated])
qed

lemma replace_g_match:
  assumes "re_exec r (m @ rest) = Some (caps, length m)" "m \<noteq> []"
  shows "replace_g r f (m @ rest) = f caps @ replace_g r f rest"
proof -
  obtain x m' where m: "m = x # m'" using assms(2) by (cases m) auto
  from assms(1) show ?thesis unfolding m by simp
qed

lemma placeholder_match:
  assumes "v \<noteq> []" "\<forall>c\<in>set v. is_ident c" "\<forall>c\<in>set ws1. is_space c" "\<forall>c\<in>set ws2. is_space c"
  shows "re_exec placeholder_re (''{{'' @ ws1 @ v @ ws2 @ ''}}'' @ rest) =
           Some ([v], length (''{{'' @ ws1 @ v @ ws2 @ ''}}''))"
proof -
  let ?k = "GOpen # Plus Ident # GClose # Star Space # lits ''}}''"
  let ?s = "v @ ws2 @ ''}}'' @ rest"
  obtain x v' where v: "v = x # v'" using assms(1) by (cases v) auto
  have k: "rmatch ?k ?s mk caps = Some (caps @ [v], rest)" for mk caps
    using rmatch_placeholder_name [of v' ws2 rest ?s caps] assms(2,4) by (simp add: v)
  have stop: "?s = [] \<or> \<not> cc_ok Space (hd ?s)"
    using assms(2) by (auto simp: v dest: ident_not_space)
  have "rmatch (Star Space # ?k) ?s mk caps = Some (caps @ [v], rest)" for mk caps
    using k [of mk caps] by (simp only: rmatch_Star_stop [OF stop])
  moreover have "\<forall>x\<in>set ws1. cc_ok Space x" using assms by simp
  ultimately have "rmatch (Star Space # ?k) (ws1 @ ?s) mk caps = Some (caps @ [v], rest)" for mk caps
    by (rule rmatch_Star_greedy [where a = ws1 and s = ?s, rotated])
  then show ?thesis
    by (simp add: re_exec_def placeholder_re_def lits_def)
qed

lemma replace_g_placeholder:
  assumes "CHR ''{'' \<notin> set pre" "v \<noteq> []" "\<forall>c\<in>set v. is_ident c"
    "\<forall>c\<in>set ws1. is_space c" "\<forall>c\<in>set ws2. is_space c"
  shows "replace_g placeholder_re f (pre @ ''{{'' @ ws1 @ v @ ws2 @ ''}}'' @ rest) =
           pre @ f [v] @ replace_g placeholder_re f rest"
proof -
  let ?m = "''{{'' @ ws1 @ v @ ws2 @ ''}}''"
  have hd: "placeholder_re = One (Lit CHR ''{'') # tl placeholder_re"
    by (simp add: placeholder_re_def lits_def)
  have "replace_g placeholder_re f (pre @ ?m @ rest) = pre @ replace_g placeholder_re f (?m @ rest)"
    using replace_g_skip_free [OF assms(1), of "tl placeholder_re" f "?m @ rest"] hd by simp
  moreover have "replace_g placeholder_re f (?m @ rest) = f [v] @ replace_g placeholder_re f rest"
    using placeholder_match [OF assms(2-5), of rest]
    by (intro replace_g_match) simp_all
  ultimately show ?thesis by simp
qed


lemma client_callback_unbound:
  "context v = None \<Longrightarrow> object_prototype v = None \<Longrightarrow> client_callback context [v] = []"
  by (simp add: client_callback_def js_get_def)

lemma unbound_placeholder_is_removed:
  assumes "CHR ''{'' \<notin> set pre" "v \<noteq> []" "\<forall>c\<in>set v. is_ident c"
    "\<forall>c\<in>set ws1. is_space c" "\<forall>c\<in>set ws2. is_space c"
    "context v = None" "object_prototype v = None"
  shows "replace_g placeholder_re (client_callback context) (pre @ ''{{'' @ ws1 @ v @ ws2 @ ''}}'' @ rest) =
           pre @ replace_g placeholder_re (client_callback context) rest"
  using replace_g_placeholder [OF assms(1-5)] client_callback_unbound [of "context" v] assms(6,7)
  by simp













text \<open>
  C7 at the inputs where the code departs from it. The context is an object literal, so
  \<^verbatim>\<open>context[v]\<close> also finds the properties inherited from \<^verbatim>\<open>Object.prototype\<close>: a placeholder
  that names one of them is replaced by the text of that built-in, not by the empty
  string, although the bindings have no entry for it. A name that is neither bound nor
  inherited gives the empty string (last conjunct, and \<open>unbound_placeholder_is_removed\<close>).
\<close>

theorem inherited_name_is_not_empty:
  "clientCompileFLO ''Hi {{__proto__}}'' Map.empty = ''Hi [object Object]'' \<and>
   compileFLOtoHTML ''Hi {{constructor}}'' Map.empty = ''Hi function Object() { [native code] }'' \<and>
   clientCompileFLO ''Hi {{ toString }}'' [''user'' \<mapsto> ''Scholar'']
     = ''Hi function toString() { [native code] }'' \<and>
   clientCompileFLO ''Hi {{user}}'' Map.empty = ''Hi ''"
  by code_simp



section \<open>Page and card tags\<close>

lemma prefix_sep_eq:
  "q \<notin> set a \<Longrightarrow> q \<notin> set b \<Longrightarrow> prefix (a @ [q]) (b @ q # y) \<Longrightarrow> a = b"
proof (induction a arbitrary: b)
  case Nil
  then show ?case by (cases b) auto
next
  case (Cons x a)
  then show ?case by (cases b) auto
qed

lemma sublist_from_suffix: "suffix t a \<Longrightarrow> prefix p t \<Longrightarrow> sublist p a"
  by (auto simp: suffix_def prefix_def sublist_def)

lemma rmatch_lits_fail:
  "\<not> prefix p s \<Longrightarrow> rmatch (lits p @ k) s mk caps = None"
  by (simp add: rmatch_lits)

text \<open>The tail of the page and card patterns, from the first \<^verbatim>\<open>[^>]*\<close> on.\<close>

lemma title_missing:
  assumes "CHR ''>'' \<notin> set a" "\<not> sublist ''title=\"'' a"
  shows "rmatch (Star (NotCh CHR ''>'') # lits ''title=\"'' @ k) (a @ CHR ''>'' # X) mk caps = None"
proof -
  have "rmatch (lits ''title=\"'' @ k) (t @ CHR ''>'' # X) mk caps = None" if "suffix t a" for t
  proof (rule rmatch_lits_fail, rule notI)
    assume "prefix ''title=\"'' (t @ CHR ''>'' # X)"
    then have "prefix ''title=\"'' t" by (rule prefix_no_sep) simp
    with that assms(2) show False by (auto dest: sublist_from_suffix)
  qed
  then show ?thesis
    using assms(1) rmatch_Star_fail [where a = a and s = "CHR ''>'' # X" and c = "NotCh CHR ''>''"]
    by simp
qed

lemma title_not_in_value:
  assumes "CHR 0x22 \<notin> set T" "\<not> suffix ''title='' T" "suffix t (T @ ''\"'')"
  shows "\<not> prefix ''title=\"'' t"
proof
  assume p: "prefix ''title=\"'' t"
  from assms(3) consider "t = []" | t' where "t = t' @ ''\"''" "suffix t' T"
    by (auto simp: suffix_append suffix_Cons)
  then show False
  proof cases
    case 1
    with p show False by simp
  next
    case 2
    then have nq: "CHR 0x22 \<notin> set t'" using assms(1) by (auto dest: set_mono_suffix)
    have pre: "prefix (''title='' @ [CHR 0x22]) (t' @ CHR 0x22 # [])"
      using p 2 by simp
    have "''title='' = t'"
      by (rule prefix_sep_eq [OF _ nq pre]) simp
    with 2 assms(2) show False by simp
  qed
qed

lemma title_once:
  assumes "CHR 0x22 \<notin> set T" "\<not> suffix ''title='' T"
    and "strict_suffix t (''title=\"'' @ T @ ''\"'')"
  shows "\<not> prefix ''title=\"'' t"
proof -
  from assms(3) have s: "suffix t (''title=\"'' @ (T @ ''\"''))" and n: "t \<noteq> ''title=\"'' @ T @ ''\"''"
    by (auto simp: strict_suffix_def)
  from s have "suffix t (T @ ''\"'') \<or> (\<exists>t'. t = t' @ T @ ''\"'' \<and> suffix t' ''title=\"'')"
    unfolding suffix_append by simp
  then show ?thesis
  proof (elim disjE exE conjE)
    assume "suffix t (T @ ''\"'')"
    with assms(1,2) show ?thesis by (rule title_not_in_value)
  next
    fix t' assume t: "t = t' @ T @ ''\"''" and t': "suffix t' ''title=\"''"
    from t' n t have "t' \<in> {''itle=\"'', ''tle=\"'', ''le=\"'', ''e=\"'', ''=\"'', ''\"'', []}"
      by (auto simp: suffix_Cons)
    then consider "t' = []" | "t' \<in> {''itle=\"'', ''tle=\"'', ''le=\"'', ''e=\"'', ''=\"'', ''\"''}"
      by auto
    then show ?thesis
    proof cases
      case 1
      with t have "suffix t (T @ ''\"'')" by simp
      with assms(1,2) show ?thesis by (rule title_not_in_value)
    next
      case 2
      with t show ?thesis by auto
    qed
  qed
qed

lemma title_present:
  assumes "T \<noteq> []" "CHR 0x22 \<notin> set T" "CHR ''>'' \<notin> set T" "\<not> suffix ''title='' T"
  shows "rmatch (Star (NotCh CHR ''>'') # lits ''title=\"'' @ [GOpen, Plus (NotCh CHR 0x22), GClose]
                   @ lits ''\"'' @ [Star (NotCh CHR ''>'')] @ lits ''>'')
           ('' '' @ (''title=\"'' @ T @ ''\"'') @ (''>'' @ X)) mk caps = Some (caps @ [T], X)"
proof -
  let ?capture = "[GOpen, Plus (NotCh CHR 0x22), GClose] @ lits ''\"'' @ [Star (NotCh CHR ''>'')] @ lits ''>''"
  let ?k = "lits ''title=\"'' @ ?capture"
  let ?a = "''title=\"'' @ T @ ''\"''"
  obtain x T' where T: "T = x # T'" using assms(1) by (cases T) auto
  have xq: "x \<noteq> CHR 0x22" using assms(2) by (auto simp: T)
  have tail: "rmatch (GClose # lits ''\"'' @ [Star (NotCh CHR ''>'')] @ lits ''>'')
                (''\"'' @ ''>'' @ X) (T @ ''\"'' @ ''>'' @ X) caps = Some (caps @ [T], X)"
    by (simp add: lits_def)
  let ?close = "GClose # lits ''\"'' @ [Star (NotCh CHR ''>'')] @ lits ''>''"
  have "rmatch (Star (NotCh CHR 0x22) # ?close) (''\"'' @ ''>'' @ X) (T @ ''\"'' @ ''>'' @ X) caps
          = Some (caps @ [T], X)"
    using tail by (simp add: lits_def)
  moreover have "\<forall>x\<in>set T'. cc_ok (NotCh CHR 0x22) x" using assms(2) by (auto simp: T)
  ultimately have "rmatch (Star (NotCh CHR 0x22) # ?close)
          (T' @ (''\"'' @ ''>'' @ X)) (T @ ''\"'' @ ''>'' @ X) caps = Some (caps @ [T], X)"
    by (rule rmatch_Star_greedy [where a = T' and s = "''\"'' @ ''>'' @ X", rotated])
  then have "rmatch ?capture (T @ ''\"'' @ ''>'' @ X) mk caps = Some (caps @ [T], X)"
    using xq by (simp add: T)
  then have here: "rmatch ?k (?a @ (''>'' @ X)) mk caps = Some (caps @ [T], X)"
    by (simp add: rmatch_lits)
  have later: "rmatch ?k (t @ (''>'' @ X)) mk caps = None" if "strict_suffix t ?a" for t
  proof (rule rmatch_lits_fail, rule notI)
    assume "prefix ''title=\"'' (t @ ''>'' @ X)"
    then have "prefix ''title=\"'' (t @ CHR ''>'' # X)" by simp
    then have "prefix ''title=\"'' t" by (rule prefix_no_sep) simp
    with title_once [OF assms(2,4) that] show False by simp
  qed
  have ok2: "\<forall>x\<in>set ?a. cc_ok (NotCh CHR ''>'') x" using assms(3) by auto
  have ok1: "\<forall>x\<in>set '' ''. cc_ok (NotCh CHR ''>'') x" by simp
  have stop: "''>'' @ X = [] \<or> \<not> cc_ok (NotCh CHR ''>'') (hd (''>'' @ X))" by simp
  have later': "\<forall>t. strict_suffix t ?a \<longrightarrow> rmatch ?k (t @ (''>'' @ X)) mk caps = None"
    using later by blast
  show ?thesis
    by (rule rmatch_Star_last [OF ok2 ok1 stop later' here])
qed


lemma card_with_title:
  assumes "T \<noteq> []" "CHR 0x22 \<notin> set T" "CHR ''>'' \<notin> set T" "\<not> suffix ''title='' T"
  shows "re_exec card_re (''<flo:card title=\"'' @ T @ ''\">'' @ X) =
           Some ([T], length (''<flo:card title=\"'' @ T @ ''\">''))"
  using title_present [OF assms, of X]
  by (simp add: re_exec_def card_re_def rmatch_lits)

lemma page_without_title:
  assumes "CHR ''>'' \<notin> set a" "\<not> sublist ''title=\"'' a"
  shows "re_exec page_re (''<flo:page'' @ a @ ''>'' @ X) = None"
  using title_missing [OF assms, of _ X]
  by (simp add: re_exec_def page_re_def rmatch_lits)

lemma card_without_title:
  assumes "CHR ''>'' \<notin> set a" "\<not> sublist ''title=\"'' a"
  shows "re_exec card_re (''<flo:card'' @ a @ ''>'' @ X) = None"
  using title_missing [OF assms, of _ X]
  by (simp add: re_exec_def card_re_def rmatch_lits)

lemma apply_rules_append:
  "apply_rules (xs @ ys) s = apply_rules ys (apply_rules xs s)"
  by (simp add: apply_rules_def)

lemma replace_g_skip_block:
  assumes "re_exec (One (Lit a) # k) (a # w @ X) = None" "a \<notin> set w"
  shows "replace_g (One (Lit a) # k) f (a # w @ X) = a # w @ replace_g (One (Lit a) # k) f X"
  using assms by (simp add: replace_g_skip_free)

lemma apply_rules_skip:
  assumes "\<forall>(r, rep)\<in>set rules. \<exists>k. r = One (Lit a) # k \<and> (\<forall>X. re_exec r (a # w @ X) = None)"
    and "a \<notin> set w"
  shows "apply_rules rules (a # w @ X) = a # w @ apply_rules rules X"
  using assms(1)
proof (induction rules arbitrary: X)
  case Nil
  then show ?case by (simp add: apply_rules_def)
next
  case (Cons rule rules)
  obtain r rep where rule: "rule = (r, rep)" by (cases rule)
  from Cons.prems obtain k where r: "r = One (Lit a) # k" and none: "\<And>X. re_exec r (a # w @ X) = None"
    by (auto simp: rule)
  have "replace_g r (expand rep) (a # w @ X) = a # w @ replace_g r (expand rep) X"
    unfolding r by (rule replace_g_skip_block) (use none r assms(2) in auto)
  moreover have "apply_rules rules (a # w @ Y) = a # w @ apply_rules rules Y" for Y
    using Cons.prems by (intro Cons.IH) auto
  ultimately show ?case by (simp add: rule apply_rules_Cons)
qed

lemma placeholder_skip:
  "CHR ''{'' \<notin> set w \<Longrightarrow> replace_g placeholder_re f (w @ X) = w @ replace_g placeholder_re f X"
  using replace_g_skip_free [of "CHR ''{''" w "tl placeholder_re" f X]
  by (simp add: placeholder_re_def lits_def)

lemma wrapper_skipped:
  assumes "CHR ''<'' \<notin> set w" "c \<noteq> CHR ''f''" "c \<noteq> CHR ''/''"
  shows "\<forall>(r, rep)\<in>set client_rules.
           \<exists>k. r = One (Lit CHR ''<'') # k \<and> (\<forall>X. re_exec r (CHR ''<'' # (c # w) @ X) = None)"
  using assms(2,3)
  by (simp add: client_rules_def lits_def re_exec_def page_re_def card_re_def link_re_def)

lemma lits_shape: "\<exists>k. lits (c # cs) = One (Lit c) # k"
  by (simp add: lits_def)

lemma page_re_shape: "\<exists>k. page_re = One (Lit CHR ''<'') # k"
  by (simp add: page_re_def lits_def)

lemma card_re_shape: "\<exists>k. card_re = One (Lit CHR ''<'') # k"
  by (simp add: card_re_def lits_def)

lemma link_re_shape: "\<exists>k. link_re = One (Lit CHR ''<'') # k"
  by (simp add: link_re_def lits_def)

lemma lits_needs_prefix: "\<not> prefix p s \<Longrightarrow> re_exec (lits p) s = None"
  using rmatch_lits_fail [of p s "[]"] by (simp add: re_exec_def)

lemma page_re_needs_prefix: "\<not> prefix ''<flo:page'' s \<Longrightarrow> re_exec page_re s = None"
  by (simp add: re_exec_def page_re_def rmatch_lits_fail)

lemma card_re_needs_prefix: "\<not> prefix ''<flo:card'' s \<Longrightarrow> re_exec card_re s = None"
  by (simp add: re_exec_def card_re_def rmatch_lits_fail)

lemma link_re_needs_prefix: "\<not> prefix ''<flo:link href=\"'' s \<Longrightarrow> re_exec link_re s = None"
  by (simp add: re_exec_def link_re_def rmatch_lits_fail)

lemmas shapes = lits_shape page_re_shape card_re_shape link_re_shape
lemmas needs_prefix = lits_needs_prefix page_re_needs_prefix card_re_needs_prefix link_re_needs_prefix

lemma page_tag_skipped:
  assumes "CHR ''>'' \<notin> set a" "\<not> sublist ''title=\"'' a"
  shows "\<forall>(r, rep)\<in>set client_rules.
           \<exists>k. r = One (Lit CHR ''<'') # k \<and>
               (\<forall>X. re_exec r (CHR ''<'' # (''flo:page'' @ a @ ''>'') @ X) = None)"
  using page_without_title [OF assms]
  by (simp add: client_rules_def shapes needs_prefix)

lemma card_tag_skipped:
  assumes "CHR ''>'' \<notin> set a" "\<not> sublist ''title=\"'' a"
  shows "\<forall>(r, rep)\<in>set client_rules.
           \<exists>k. r = One (Lit CHR ''<'') # k \<and>
               (\<forall>X. re_exec r (CHR ''<'' # (''flo:card'' @ a @ ''>'') @ X) = None)"
  using card_without_title [OF assms]
  by (simp add: client_rules_def shapes needs_prefix)

lemma card_tag_skipped_before:
  "\<forall>(r, rep)\<in>set (take 10 client_rules).
     \<exists>k. r = One (Lit CHR ''<'') # k \<and> (\<forall>X. re_exec r (CHR ''<'' # (''flo:card'' @ w) @ X) = None)"
  by (simp add: client_rules_def shapes needs_prefix)


lemma rules_card_between:
  "apply_rules client_rules s =
     apply_rules (drop 11 client_rules)
       (replace_g card_re (expand ''<section class=\"flo-card\" data-title=\"$1\">'')
          (apply_rules (take 10 client_rules) s))"
  by (simp add: client_rules_def apply_rules_def)

lemma skipped_subset:
  assumes "\<forall>(r, rep)\<in>set rules. \<exists>k. r = One (Lit a) # k \<and> (\<forall>X. re_exec r (a # w @ X) = None)"
    and "set rules' \<subseteq> set rules"
  shows "\<forall>(r, rep)\<in>set rules'. \<exists>k. r = One (Lit a) # k \<and> (\<forall>X. re_exec r (a # w @ X) = None)"
  using assms by blast


lemma card_title_compiled:
  assumes "T \<noteq> []" "CHR 0x22 \<notin> set T" "CHR ''>'' \<notin> set T" "CHR ''<'' \<notin> set T"
    "CHR ''{'' \<notin> set T" "\<not> suffix ''title='' T"
  shows "clientCompileFLO (''<flo:card title=\"'' @ T @ ''\">'' @ rest) context =
           ''<section class=\"flo-card\" data-title=\"'' @ T @ ''\">'' @ clientCompileFLO rest context"
proof -
  let ?tag = "''<flo:card title=\"'' @ T @ ''\">''"
  let ?t = "''flo:card title=\"'' @ T @ ''\">''"
  let ?w = "''section class=\"flo-card\" data-title=\"'' @ T @ ''\">''"
  let ?rep = "expand ''<section class=\"flo-card\" data-title=\"$1\">''"
  let ?I = "replace_g placeholder_re (client_callback context) rest"
  let ?B = "apply_rules (take 10 client_rules) ?I"
  let ?P = "replace_g card_re ?rep ?B"
  have "replace_g placeholder_re (client_callback context) (?tag @ rest) = ?tag @ ?I"
    using assms(5) by (intro placeholder_skip) simp
  moreover have "apply_rules (take 10 client_rules) (CHR ''<'' # ?t @ ?I) = CHR ''<'' # ?t @ ?B"
  proof (rule apply_rules_skip)
    show "CHR ''<'' \<notin> set ?t" using assms(4) by simp
    show "\<forall>(r, rep)\<in>set (take 10 client_rules).
           \<exists>k. r = One (Lit CHR ''<'') # k \<and> (\<forall>X. re_exec r (CHR ''<'' # ?t @ X) = None)"
      using card_tag_skipped_before [of "'' title=\"'' @ T @ ''\">''"] by simp
  qed
  moreover have "replace_g card_re ?rep (?tag @ ?B) = ?rep [T] @ ?P"
    using card_with_title [OF assms(1,2,3,6)] by (intro replace_g_match) simp_all
  moreover have "?rep [T] = CHR ''<'' # ?w"
    by (simp add: group_ref_def)
  moreover have "apply_rules (drop 11 client_rules) (CHR ''<'' # ?w @ ?P) =
                   CHR ''<'' # ?w @ apply_rules (drop 11 client_rules) ?P"
  proof (rule apply_rules_skip)
    show "CHR ''<'' \<notin> set ?w" using assms(4) by simp
    have "\<forall>(r, rep)\<in>set client_rules.
           \<exists>k. r = One (Lit CHR ''<'') # k \<and> (\<forall>X. re_exec r (CHR ''<'' # ?w @ X) = None)"
      using wrapper_skipped [of "''ection class=\"flo-card\" data-title=\"'' @ T @ ''\">''" "CHR ''s''"]
        assms(4) by simp
    then show "\<forall>(r, rep)\<in>set (drop 11 client_rules).
           \<exists>k. r = One (Lit CHR ''<'') # k \<and> (\<forall>X. re_exec r (CHR ''<'' # ?w @ X) = None)"
      by (rule skipped_subset) (rule set_drop_subset)
  qed
  ultimately show ?thesis
    by (simp add: clientCompileFLO_def rules_card_between)
qed

lemma page_no_title_compiled:
  assumes "CHR ''>'' \<notin> set a" "CHR ''<'' \<notin> set a" "CHR ''{'' \<notin> set a" "\<not> sublist ''title=\"'' a"
  shows "clientCompileFLO (''<flo:page'' @ a @ ''>'' @ rest) context =
           ''<flo:page'' @ a @ ''>'' @ clientCompileFLO rest context"
proof -
  let ?t = "''flo:page'' @ a @ ''>''"
  let ?I = "replace_g placeholder_re (client_callback context) rest"
  have "replace_g placeholder_re (client_callback context) ((CHR ''<'' # ?t) @ rest) = (CHR ''<'' # ?t) @ ?I"
    using assms(3) by (intro placeholder_skip) simp
  moreover have "apply_rules client_rules (CHR ''<'' # ?t @ ?I) = CHR ''<'' # ?t @ apply_rules client_rules ?I"
    using assms(2) by (intro apply_rules_skip page_tag_skipped [OF assms(1,4)]) simp
  ultimately show ?thesis
    by (simp add: clientCompileFLO_def)
qed

lemma card_no_title_compiled:
  assumes "CHR ''>'' \<notin> set a" "CHR ''<'' \<notin> set a" "CHR ''{'' \<notin> set a" "\<not> sublist ''title=\"'' a"
  shows "clientCompileFLO (''<flo:card'' @ a @ ''>'' @ rest) context =
           ''<flo:card'' @ a @ ''>'' @ clientCompileFLO rest context"
proof -
  let ?t = "''flo:card'' @ a @ ''>''"
  let ?I = "replace_g placeholder_re (client_callback context) rest"
  have "replace_g placeholder_re (client_callback context) ((CHR ''<'' # ?t) @ rest) = (CHR ''<'' # ?t) @ ?I"
    using assms(3) by (intro placeholder_skip) simp
  moreover have "apply_rules client_rules (CHR ''<'' # ?t @ ?I) = CHR ''<'' # ?t @ apply_rules client_rules ?I"
    using assms(2) by (intro apply_rules_skip card_tag_skipped [OF assms(1,4)]) simp
  ultimately show ?thesis
    by (simp add: clientCompileFLO_def)
qed

text \<open>
  C5, at inputs where the code departs from it. A page or card opening tag without a title
  attribute is not rewritten to its wrapper element by any of the three compilers, with
  or without other attributes, while its closing tag is rewritten: the output keeps the
  opening tag and closes a \<^verbatim>\<open>div\<close> or a \<^verbatim>\<open>section\<close> that was never opened. With a title the
  tag is rewritten and the title carried as \<^verbatim>\<open>data-title\<close> (last conjunct).
\<close>

theorem tag_without_title_not_rewritten:
  "clientCompileFLO ''<flo:page><flo:card>x</flo:card></flo:page>'' Map.empty =
     ''<flo:page><flo:card>x</section></div>'' \<and>
   compileFLOtoHTML ''<flo:page><flo:card>x</flo:card></flo:page>'' Map.empty =
     ''<flo:page><flo:card>x</section></div>'' \<and>
   clientCompileFLO_123 ''<flo:page><flo:card>x</flo:card></flo:page>'' Map.empty =
     ''<flo:page><flo:card>x</section></div>'' \<and>
   clientCompileFLO ''<flo:page id=\"p\">x</flo:page>'' Map.empty = ''<flo:page id=\"p\">x</div>'' \<and>
   clientCompileFLO ''<flo:page title=\"Home\">x</flo:page>'' Map.empty =
     ''<div class=\"flo-page\" data-title=\"Home\">x</div>''"
  by code_simp


section \<open>Links\<close>

lemma link_text_stops_at_line_end:
  assumes "is_line_terminator nl" "\<not> sublist ''</flo:link>'' t1"
  shows "rmatch ([GOpen, Lazy Dot, GClose] @ lits ''</flo:link>'') (t1 @ nl # rest) mk caps = None"
proof -
  have nl: "nl \<notin> set ''</flo:link>''"
    using assms(1) by (auto simp: is_line_terminator_def)
  have "rmatch (GClose # lits ''</flo:link>'') (t @ nl # rest) mk' caps = None" if "suffix t t1" for t mk'
  proof -
    have "\<not> prefix ''</flo:link>'' (t @ nl # rest)"
    proof
      assume "prefix ''</flo:link>'' (t @ nl # rest)"
      then have "prefix ''</flo:link>'' t" using nl by (rule prefix_no_sep)
      with that assms(2) show False by (auto dest: sublist_from_suffix)
    qed
    then show ?thesis
      using rmatch_lits_fail [of "''</flo:link>''" "t @ nl # rest" "[]"] by simp
  qed
  then have "rmatch (Lazy Dot # GClose # lits ''</flo:link>'') (t1 @ nl # rest) mk' caps = None" for mk'
    using assms(1) by (intro rmatch_Lazy_fail) auto
  then show ?thesis by simp
qed

lemma link_not_across_lines:
  assumes "is_line_terminator nl" "CHR 0x22 \<notin> set h" "CHR ''>'' \<notin> set a"
    "\<not> sublist ''</flo:link>'' t1"
  shows "re_exec link_re (''<flo:link href=\"'' @ h @ ''\"'' @ a @ ''>'' @ t1 @ nl # rest) = None"
proof -
  let ?text = "[GOpen, Lazy Dot, GClose] @ lits ''</flo:link>''"
  let ?attrs = "Star (NotCh CHR ''>'') # lits ''>'' @ ?text"
  let ?quote = "GClose # lits ''\"'' @ ?attrs"
  let ?s2 = "CHR ''>'' # t1 @ nl # rest"
  let ?s1 = "CHR 0x22 # a @ ?s2"
  have attrs: "rmatch ?attrs (a @ ?s2) mk caps = None" for mk caps
  proof (rule rmatch_Star_fail)
    show "?s2 = [] \<or> \<not> cc_ok (NotCh CHR ''>'') (hd ?s2)" by simp
    show "\<forall>t. suffix t a \<longrightarrow> rmatch (lits ''>'' @ ?text) (t @ ?s2) mk caps = None"
    proof (intro allI impI)
      fix t assume "suffix t a"
      then have "CHR ''>'' \<notin> set t" using assms(3) by (auto dest: set_mono_suffix)
      then show "rmatch (lits ''>'' @ ?text) (t @ ?s2) mk caps = None"
        using link_text_stops_at_line_end [OF assms(1,4), of rest]
        by (cases t) (auto simp: lits_def)
    qed
  qed
  have quote: "rmatch ?quote (t @ ?s1) mk caps = None" if "suffix t h" for t mk caps
  proof -
    from that have "CHR 0x22 \<notin> set t" using assms(2) by (auto dest: set_mono_suffix)
    then show ?thesis using attrs by (cases t) (auto simp: lits_def)
  qed
  have "rmatch (Plus (NotCh CHR 0x22) # ?quote) (h @ ?s1) mk caps = None" for mk caps
  proof (cases h)
    case Nil
    then show ?thesis by simp
  next
    case (Cons x h')
    have "rmatch (Star (NotCh CHR 0x22) # ?quote) (h' @ ?s1) mk caps = None"
    proof (rule rmatch_Star_fail)
      show "?s1 = [] \<or> \<not> cc_ok (NotCh CHR 0x22) (hd ?s1)" by simp
      show "\<forall>t. suffix t h' \<longrightarrow> rmatch ?quote (t @ ?s1) mk caps = None"
        using quote by (auto simp: Cons suffix_Cons)
    qed
    then show ?thesis by (simp add: Cons)
  qed
  then show ?thesis
    by (simp add: re_exec_def link_re_def rmatch_lits)
qed

lemma link_tag_skipped:
  assumes "is_line_terminator nl" "CHR 0x22 \<notin> set h" "CHR ''>'' \<notin> set a"
    "\<not> sublist ''</flo:link>'' t1"
  shows "\<forall>(r, rep)\<in>set client_rules.
           \<exists>k. r = One (Lit CHR ''<'') # k \<and>
               (\<forall>X. re_exec r (CHR ''<'' # (''flo:link href=\"'' @ h @ ''\"'' @ a @ ''>'' @ t1 @ nl # t2) @ X)
                     = None)"
proof -
  have "re_exec link_re (CHR ''<'' # (''flo:link href=\"'' @ h @ ''\"'' @ a @ ''>'' @ t1 @ nl # t2) @ X)
          = None" for X
    using link_not_across_lines [OF assms, of "t2 @ X"] by simp
  then show ?thesis
    by (simp add: client_rules_def shapes needs_prefix)
qed

lemma closing_link_tag_skipped:
  "\<forall>(r, rep)\<in>set client_rules.
     \<exists>k. r = One (Lit CHR ''<'') # k \<and> (\<forall>X. re_exec r (CHR ''<'' # ''/flo:link>'' @ X) = None)"
  by (simp add: client_rules_def shapes needs_prefix)

lemma line_terminator_plain: "is_line_terminator nl \<Longrightarrow> nl \<noteq> CHR ''<'' \<and> nl \<noteq> CHR ''{''"
  by (auto simp: is_line_terminator_def)

section \<open>Tags that match nothing, and tags rewritten on their own\<close>

lemma block_passes_through:
  assumes "\<forall>(r, rep)\<in>set client_rules.
             \<exists>k. r = One (Lit CHR ''<'') # k \<and> (\<forall>X. re_exec r (CHR ''<'' # w @ X) = None)"
    and "CHR ''<'' \<notin> set w" "CHR ''{'' \<notin> set w"
  shows "clientCompileFLO (CHR ''<'' # w @ rest) context = CHR ''<'' # w @ clientCompileFLO rest context"
proof -
  let ?I = "replace_g placeholder_re (client_callback context) rest"
  have "replace_g placeholder_re (client_callback context) ((CHR ''<'' # w) @ rest) = (CHR ''<'' # w) @ ?I"
    using assms(3) by (intro placeholder_skip) simp
  moreover have "apply_rules client_rules (CHR ''<'' # w @ ?I) = CHR ''<'' # w @ apply_rules client_rules ?I"
    using assms(1,2) by (rule apply_rules_skip)
  ultimately show ?thesis by (simp add: clientCompileFLO_def)
qed

lemma unknown_tag_skipped:
  "\<forall>(r, rep)\<in>set client_rules.
     \<exists>k. r = One (Lit CHR ''<'') # k \<and> (\<forall>X. re_exec r (CHR ''<'' # ''flo:widget/>'' @ X) = None)"
  by (simp add: client_rules_def shapes needs_prefix)

lemma rules_header_between:
  "apply_rules client_rules s =
     apply_rules (drop 3 client_rules)
       (replace_g (lits ''<flo:header>'') (expand ''<header class=\"flo-header\">'')
          (apply_rules (take 2 client_rules) s))"
  by (simp add: client_rules_def apply_rules_def)

lemma header_tag_compiled:
  "clientCompileFLO (''<flo:header>'' @ rest) context =
     ''<header class=\"flo-header\">'' @ clientCompileFLO rest context"
proof -
  let ?I = "replace_g placeholder_re (client_callback context) rest"
  let ?B = "apply_rules (take 2 client_rules) ?I"
  let ?rep = "expand ''<header class=\"flo-header\">''"
  let ?P = "replace_g (lits ''<flo:header>'') ?rep ?B"
  have "replace_g placeholder_re (client_callback context) (''<flo:header>'' @ rest) = ''<flo:header>'' @ ?I"
    by (intro placeholder_skip) simp
  moreover have "apply_rules (take 2 client_rules) (CHR ''<'' # ''flo:header>'' @ ?I) =
                   CHR ''<'' # ''flo:header>'' @ ?B"
    by (rule apply_rules_skip) (simp_all add: client_rules_def shapes needs_prefix)
  moreover have "re_exec (lits ''<flo:header>'') (''<flo:header>'' @ ?B) = Some ([], length ''<flo:header>'')"
    by (simp add: re_exec_def lits_def)
  then have "replace_g (lits ''<flo:header>'') ?rep (''<flo:header>'' @ ?B) = ?rep [] @ ?P"
    by (intro replace_g_match) simp_all
  moreover have "?rep [] = CHR ''<'' # ''header class=\"flo-header\">''"
    by (simp add: group_ref_def)
  moreover have "apply_rules (drop 3 client_rules) (CHR ''<'' # ''header class=\"flo-header\">'' @ ?P) =
                   CHR ''<'' # ''header class=\"flo-header\">'' @ apply_rules (drop 3 client_rules) ?P"
  proof (rule apply_rules_skip)
    show "CHR ''<'' \<notin> set ''header class=\"flo-header\">''" by simp
    have "\<forall>(r, rep)\<in>set client_rules. \<exists>k. r = One (Lit CHR ''<'') # k \<and>
            (\<forall>X. re_exec r (CHR ''<'' # ''header class=\"flo-header\">'' @ X) = None)"
      using wrapper_skipped [of "''eader class=\"flo-header\">''" "CHR ''h''"] by simp
    then show "\<forall>(r, rep)\<in>set (drop 3 client_rules). \<exists>k. r = One (Lit CHR ''<'') # k \<and>
            (\<forall>X. re_exec r (CHR ''<'' # ''header class=\"flo-header\">'' @ X) = None)"
      by (rule skipped_subset) (rule set_drop_subset)
  qed
  ultimately show ?thesis
    by (simp add: clientCompileFLO_def rules_header_between)
qed

subsection \<open>The computations return\<close>

lemma rmatch_run_returns: "rmatch_run p s mk caps = Some (rmatch p s mk caps)"
proof (induction p s mk caps rule: rmatch.induct)
  case (5 c k x xs mk caps)
  then show ?case
    by (subst rmatch_run.simps) (auto split: option.splits)
next
  case (9 c k x xs mk caps)
  then show ?case
    by (subst rmatch_run.simps) (auto split: option.splits)
qed (subst rmatch_run.simps, simp)+

lemma re_exec_run_returns: "re_exec_run r s = Some (re_exec r s)"
  by (simp add: re_exec_run_def re_exec_def rmatch_run_returns)

lemma replace_run_returns: "replace_run r f s = Some (replace_g r f s)"
proof (induction r f s rule: replace_g.induct)
  case (1 r f)
  show ?case
    by (subst replace_run.simps) (simp add: re_exec_run_returns split: option.splits)
next
  case (2 r f c cs)
  then show ?case
    by (subst replace_run.simps) (auto simp: re_exec_run_returns split: option.splits)
qed

lemma apply_rules_run_returns: "apply_rules_run rules html = Some (apply_rules rules html)"
  by (induction rules html rule: apply_rules_run.induct)
     (simp_all add: apply_rules_def replace_run_returns)

lemma compilers_return:
  "clientCompileFLO_run src context = Some (clientCompileFLO src context)"
  "compileFLOtoHTML_run src context = Some (compileFLOtoHTML src context)"
  "clientCompileFLO_123_run src context = Some (clientCompileFLO_123 src context)"
  by (simp_all add: clientCompileFLO_run_def compileFLOtoHTML_run_def clientCompileFLO_123_run_def
      clientCompileFLO_def compileFLOtoHTML_def clientCompileFLO_123_def
      replace_run_returns apply_rules_run_returns)

subsection \<open>Text that no pattern matches, and text that compiles alone\<close>

lemma replace_g_skip_unmatched:
  "\<forall>t. suffix t w \<and> t \<noteq> [] \<longrightarrow> re_exec r (t @ X) = None \<Longrightarrow>
   replace_g r f (w @ X) = w @ replace_g r f X"
proof (induction w)
  case Nil
  then show ?case by simp
next
  case (Cons x w)
  have "re_exec r ((x # w) @ X) = None" using Cons.prems by blast
  moreover have "replace_g r f (w @ X) = w @ replace_g r f X"
    using Cons.prems by (intro Cons.IH) (auto simp: suffix_Cons)
  ultimately show ?case by simp
qed

lemma apply_rules_untouched:
  assumes "\<forall>(r, rep)\<in>set rules. \<forall>t following.
             suffix t w \<and> t \<noteq> [] \<longrightarrow> re_exec r (t @ following) = None"
  shows "apply_rules rules (w @ X) = w @ apply_rules rules X"
  using assms
proof (induction rules arbitrary: X)
  case Nil
  then show ?case by (simp add: apply_rules_def)
next
  case (Cons rule rules)
  obtain r rep where rule: "rule = (r, rep)" by (cases rule)
  have "replace_g r (expand rep) (w @ X) = w @ replace_g r (expand rep) X"
    using Cons.prems by (intro replace_g_skip_unmatched) (auto simp: rule)
  moreover have "apply_rules rules (w @ Y) = w @ apply_rules rules Y" for Y
    using Cons.prems by (intro Cons.IH) auto
  ultimately show ?case by (simp add: rule apply_rules_Cons)
qed

lemma untouched_passes_rules:
  "untouched w \<Longrightarrow> apply_rules client_rules (w @ X) = w @ apply_rules client_rules X"
  unfolding untouched_def by (rule apply_rules_untouched)

lemma placeholder_free_passes:
  "placeholder_free w \<Longrightarrow> replace_g placeholder_re f (w @ X) = w @ replace_g placeholder_re f X"
  unfolding placeholder_free_def by (intro replace_g_skip_unmatched) blast

lemma unmatched_passes_through:
  assumes "untouched w" "placeholder_free w"
  shows "clientCompileFLO (w @ rest) context = w @ clientCompileFLO rest context"
  using assms by (simp add: clientCompileFLO_def placeholder_free_passes untouched_passes_rules)

lemma compile_empty: "clientCompileFLO [] context = []"
proof -
  have "\<not> matches_somewhere placeholder_re []" by code_simp
  then have "replace_g placeholder_re (client_callback context) [] = []" by (rule replace_g_id)
  moreover have "\<forall>(r, rep)\<in>set client_rules. \<not> matches_somewhere r []" by code_simp
  then have "apply_rules client_rules [] = []" by (rule apply_rules_id)
  ultimately show ?thesis
    by (simp add: clientCompileFLO_def)
qed

lemma compiles_aloneI:
  assumes "\<And>rest. clientCompileFLO (w @ rest) context = out @ clientCompileFLO rest context"
  shows "compiles_alone w context"
proof -
  have "clientCompileFLO w context = out"
    using assms [of "[]"] by (simp add: compile_empty)
  with assms show ?thesis by (simp add: compiles_alone_def)
qed

lemma compiles_alone_unmatched:
  "untouched w \<Longrightarrow> placeholder_free w \<Longrightarrow> compiles_alone w context"
  by (rule compiles_aloneI) (rule unmatched_passes_through)

lemma compiles_alone_append:
  assumes "compiles_alone a context" "compiles_alone b context"
  shows "compiles_alone (a @ b) context"
  using assms by (simp add: compiles_alone_def)

lemma compiles_alone_empty: "compiles_alone [] context"
  by (simp add: compiles_alone_def compile_empty)

lemma untouched_free: "CHR ''<'' \<notin> set w \<Longrightarrow> untouched w"
proof -
  assume w: "CHR ''<'' \<notin> set w"
  have "re_exec r (t @ X) = None"
    if t: "suffix t w" "t \<noteq> []" and r: "\<exists>k. r = One (Lit CHR ''<'') # k" for r t X
  proof (cases t)
    case Nil
    with t show ?thesis by simp
  next
    case (Cons x t')
    have "x \<in> set w" using t(1) Cons by (auto dest: set_mono_suffix)
    with w have "x \<noteq> CHR ''<''" by auto
    with r show ?thesis by (auto simp: Cons re_exec_head)
  qed
  moreover have "\<forall>(r, rep)\<in>set client_rules. \<exists>k. r = One (Lit CHR ''<'') # k"
    by (simp add: client_rules_def shapes)
  ultimately show ?thesis unfolding untouched_def by blast
qed

lemma placeholder_free_free: "CHR ''{'' \<notin> set w \<Longrightarrow> placeholder_free w"
proof -
  assume w: "CHR ''{'' \<notin> set w"
  have p: "placeholder_re = One (Lit CHR ''{'') # tl placeholder_re"
    by (simp add: placeholder_re_def lits_def)
  have "re_exec placeholder_re (t @ X) = None" if t: "suffix t w" "t \<noteq> []" for t X
  proof (cases t)
    case Nil
    with t show ?thesis by simp
  next
    case (Cons x t')
    have "x \<in> set w" using t(1) Cons by (auto dest: set_mono_suffix)
    with w have "x \<noteq> CHR ''{''" by auto
    then show ?thesis using re_exec_head [of x "CHR ''{''" "tl placeholder_re" "t' @ X"] p
      by (simp add: Cons)
  qed
  then show ?thesis unfolding placeholder_free_def by blast
qed

lemma suffix_append_cases:
  assumes "suffix t (a @ b)" "t \<noteq> []"
  obtains "suffix t b" | t' where "t = t' @ b" "suffix t' a" "t' \<noteq> []"
proof -
  from assms(1) consider "suffix t b" | t' where "t = t' @ b" "suffix t' a"
    by (auto simp: suffix_append)
  then show thesis
  proof cases
    case 1
    then show ?thesis by (rule that(1))
  next
    case 2
    show ?thesis
    proof (cases "t' = []")
      case True
      with 2 have "suffix t b" by simp
      then show ?thesis by (rule that(1))
    next
      case False
      with 2 show ?thesis by (intro that(2))
    qed
  qed
qed

lemma untouched_append:
  assumes "untouched a" "untouched b"
  shows "untouched (a @ b)"
  unfolding untouched_def
proof (intro ballI allI impI, clarify)
  fix r rep t following
  assume r: "(r, rep) \<in> set client_rules" and t: "suffix t (a @ b)" "t \<noteq> []"
  from t show "re_exec r (t @ following) = None"
  proof (cases rule: suffix_append_cases)
    case 1
    with assms(2) r t(2) show ?thesis unfolding untouched_def by blast
  next
    case (2 t')
    with assms(1) r have "re_exec r (t' @ (b @ following)) = None"
      unfolding untouched_def by blast
    with 2 show ?thesis by simp
  qed
qed

lemma placeholder_free_append:
  assumes "placeholder_free a" "placeholder_free b"
  shows "placeholder_free (a @ b)"
  unfolding placeholder_free_def
proof (intro allI impI, elim conjE)
  fix t following
  assume t: "suffix t (a @ b)" "t \<noteq> []"
  from t show "re_exec placeholder_re (t @ following) = None"
  proof (cases rule: suffix_append_cases)
    case 1
    with assms(2) t(2) show ?thesis unfolding placeholder_free_def by blast
  next
    case (2 t')
    with assms(1) have "re_exec placeholder_re (t' @ (b @ following)) = None"
      unfolding placeholder_free_def by blast
    with 2 show ?thesis by simp
  qed
qed

lemma untouched_block:
  assumes "\<forall>(r, rep)\<in>set client_rules.
             \<exists>k. r = One (Lit CHR ''<'') # k \<and> (\<forall>X. re_exec r (CHR ''<'' # w @ X) = None)"
    and "untouched w"
  shows "untouched (CHR ''<'' # w)"
  using assms unfolding untouched_def
  by (auto simp: suffix_Cons)

lemma compiles_alone_header: "compiles_alone ''<flo:header>'' context"
  by (rule compiles_aloneI) (rule header_tag_compiled)


lemma compiles_alone_text:
  "CHR ''<'' \<notin> set w \<Longrightarrow> CHR ''{'' \<notin> set w \<Longrightarrow> compiles_alone w context"
  by (intro compiles_alone_unmatched untouched_free placeholder_free_free)


lemma closing_wrapper_skipped:
  assumes "c \<noteq> CHR ''f''"
  shows "\<forall>(r, rep)\<in>set client_rules.
           \<exists>k. r = One (Lit CHR ''<'') # k \<and> (\<forall>X. re_exec r (CHR ''<'' # (CHR ''/'' # c # w) @ X) = None)"
  using assms
  by (simp add: client_rules_def lits_def re_exec_def page_re_def card_re_def link_re_def)

subsection \<open>Tags that a literal rule rewrites\<close>

lemma literal_of_lits: "literal_of r = Some p \<Longrightarrow> r = lits p"
  by (induction r arbitrary: p rule: literal_of.induct) (auto simp: lits_def)

lemma expand_plain: "CHR ''$'' \<notin> set rep \<Longrightarrow> expand rep caps = rep"
  by (induction rep caps rule: expand.induct) auto

lemma re_exec_lits: "re_exec (lits p) (p @ X) = Some ([], length p)"
  using rmatch_lits [of p "[]" "p @ X" "p @ X" "[]"] by (simp add: re_exec_def)

lemma literal_rule_compiled:
  assumes rules: "client_rules = before @ (lits (CHR ''<'' # w), CHR ''<'' # w') # after"
    and w: "CHR ''<'' \<notin> set w" "CHR ''{'' \<notin> set w"
    and w': "CHR ''<'' \<notin> set w'" "CHR ''$'' \<notin> set w'"
    and skip_before: "\<forall>(r, rep)\<in>set before.
        \<exists>k. r = One (Lit CHR ''<'') # k \<and> (\<forall>X. re_exec r (CHR ''<'' # w @ X) = None)"
    and skip_after: "\<forall>(r, rep)\<in>set after.
        \<exists>k. r = One (Lit CHR ''<'') # k \<and> (\<forall>X. re_exec r (CHR ''<'' # w' @ X) = None)"
  shows "clientCompileFLO ((CHR ''<'' # w) @ rest) context =
           (CHR ''<'' # w') @ clientCompileFLO rest context"
proof -
  let ?p = "CHR ''<'' # w"
  let ?rep = "CHR ''<'' # w'"
  let ?I = "replace_g placeholder_re (client_callback context) rest"
  let ?B = "apply_rules before ?I"
  let ?P = "replace_g (lits ?p) (expand ?rep) ?B"
  have split: "apply_rules client_rules s =
      apply_rules after (replace_g (lits ?p) (expand ?rep) (apply_rules before s))" for s
    by (simp add: rules apply_rules_def)
  have "replace_g placeholder_re (client_callback context) (?p @ rest) = ?p @ ?I"
    using w(2) by (intro placeholder_skip) simp
  moreover have "apply_rules before (CHR ''<'' # w @ ?I) = CHR ''<'' # w @ ?B"
    using skip_before w(1) by (rule apply_rules_skip)
  moreover have "replace_g (lits ?p) (expand ?rep) (?p @ ?B) = expand ?rep [] @ ?P"
    using re_exec_lits [of ?p ?B] by (intro replace_g_match) simp_all
  moreover have "expand ?rep [] = ?rep"
    using w'(2) by (intro expand_plain) simp
  moreover have "apply_rules after (CHR ''<'' # w' @ ?P) = CHR ''<'' # w' @ apply_rules after ?P"
    using skip_after w'(1) by (rule apply_rules_skip)
  ultimately show ?thesis
    by (simp add: clientCompileFLO_def split)
qed

lemma simple_tags_are_the_literal_rules:
  "map (\<lambda>(p, rep). (lits p, rep)) simple_tags =
     filter (\<lambda>(r, rep). literal_of r \<noteq> None) client_rules"
  by code_simp

lemma simple_tag_rewritten:
  "clientCompileFLO (''</flo:page>'' @ rest) context = ''</div>'' @ clientCompileFLO rest context"
  "clientCompileFLO (''<flo:header>'' @ rest) context = ''<header class=\"flo-header\">'' @ clientCompileFLO rest context"
  "clientCompileFLO (''</flo:header>'' @ rest) context = ''</header>'' @ clientCompileFLO rest context"
  "clientCompileFLO (''<flo:nav>'' @ rest) context = ''<nav class=\"flo-nav\">'' @ clientCompileFLO rest context"
  "clientCompileFLO (''</flo:nav>'' @ rest) context = ''</nav>'' @ clientCompileFLO rest context"
  "clientCompileFLO (''<flo:logo>'' @ rest) context = ''<div class=\"flo-logo\">'' @ clientCompileFLO rest context"
  "clientCompileFLO (''</flo:logo>'' @ rest) context = ''</div>'' @ clientCompileFLO rest context"
  "clientCompileFLO (''<flo:main>'' @ rest) context = ''<main class=\"flo-main\">'' @ clientCompileFLO rest context"
  "clientCompileFLO (''</flo:main>'' @ rest) context = ''</main>'' @ clientCompileFLO rest context"
  "clientCompileFLO (''</flo:card>'' @ rest) context = ''</section>'' @ clientCompileFLO rest context"
  "clientCompileFLO (''<flo:footer>'' @ rest) context = ''<footer class=\"flo-footer\">'' @ clientCompileFLO rest context"
  "clientCompileFLO (''</flo:footer>'' @ rest) context = ''</footer>'' @ clientCompileFLO rest context"
  subgoal
    by (rule literal_rule_compiled [where before = "take 1 client_rules" and after = "drop 2 client_rules"
          and w = "''/flo:page>''" and w' = "''/div>''"])
       (simp_all add: client_rules_def shapes needs_prefix)
  subgoal
    by (rule literal_rule_compiled [where before = "take 2 client_rules" and after = "drop 3 client_rules"
          and w = "''flo:header>''" and w' = "''header class=\"flo-header\">''"])
       (simp_all add: client_rules_def shapes needs_prefix)
  subgoal
    by (rule literal_rule_compiled [where before = "take 3 client_rules" and after = "drop 4 client_rules"
          and w = "''/flo:header>''" and w' = "''/header>''"])
       (simp_all add: client_rules_def shapes needs_prefix)
  subgoal
    by (rule literal_rule_compiled [where before = "take 4 client_rules" and after = "drop 5 client_rules"
          and w = "''flo:nav>''" and w' = "''nav class=\"flo-nav\">''"])
       (simp_all add: client_rules_def shapes needs_prefix)
  subgoal
    by (rule literal_rule_compiled [where before = "take 5 client_rules" and after = "drop 6 client_rules"
          and w = "''/flo:nav>''" and w' = "''/nav>''"])
       (simp_all add: client_rules_def shapes needs_prefix)
  subgoal
    by (rule literal_rule_compiled [where before = "take 6 client_rules" and after = "drop 7 client_rules"
          and w = "''flo:logo>''" and w' = "''div class=\"flo-logo\">''"])
       (simp_all add: client_rules_def shapes needs_prefix)
  subgoal
    by (rule literal_rule_compiled [where before = "take 7 client_rules" and after = "drop 8 client_rules"
          and w = "''/flo:logo>''" and w' = "''/div>''"])
       (simp_all add: client_rules_def shapes needs_prefix)
  subgoal
    by (rule literal_rule_compiled [where before = "take 8 client_rules" and after = "drop 9 client_rules"
          and w = "''flo:main>''" and w' = "''main class=\"flo-main\">''"])
       (simp_all add: client_rules_def shapes needs_prefix)
  subgoal
    by (rule literal_rule_compiled [where before = "take 9 client_rules" and after = "drop 10 client_rules"
          and w = "''/flo:main>''" and w' = "''/main>''"])
       (simp_all add: client_rules_def shapes needs_prefix)
  subgoal
    by (rule literal_rule_compiled [where before = "take 11 client_rules" and after = "drop 12 client_rules"
          and w = "''/flo:card>''" and w' = "''/section>''"])
       (simp_all add: client_rules_def shapes needs_prefix)
  subgoal
    by (rule literal_rule_compiled [where before = "take 12 client_rules" and after = "drop 13 client_rules"
          and w = "''flo:footer>''" and w' = "''footer class=\"flo-footer\">''"])
       (simp_all add: client_rules_def shapes needs_prefix)
  subgoal
    by (rule literal_rule_compiled [where before = "take 13 client_rules" and after = "drop 14 client_rules"
          and w = "''/flo:footer>''" and w' = "''/footer>''"])
       (simp_all add: client_rules_def shapes needs_prefix)
  done

lemma simple_tags_compiled:
  assumes "(p, rep) \<in> set simple_tags"
  shows "clientCompileFLO (p @ rest) context = rep @ clientCompileFLO rest context"
  using assms unfolding simple_tags_def
  apply (simp only: list.set insert_iff empty_iff prod.inject)
  apply (elim disjE conjE FalseE)
  apply (simp_all only: simple_tag_rewritten)
  done

lemma compiles_alone_simple_tag:
  "(p, rep) \<in> set simple_tags \<Longrightarrow> compiles_alone p context"
  by (rule compiles_aloneI) (rule simple_tags_compiled)

section \<open>Binding values in the output\<close>



section \<open>Links across lines\<close>

text \<open>
  C10, as stated: every link element whose text reaches a line terminator before its
  closing tag would be left entirely untransformed. It is not when another match takes a
  part of it: a link nested in its text is rewritten together with the closing tag, an
  unclosed page tag before it replaces its opening tag, and a placeholder in its text is
  interpolated.
\<close>

theorem link_across_lines_is_transformed:
  "clientCompileFLO (''<flo:link href=\"a\">x'' @ CHR 0x0A # ''<flo:link href=\"b\">y</flo:link>'') Map.empty =
     ''<flo:link href=\"a\">x'' @ CHR 0x0A # ''<a href=\"b\" class=\"flo-link\">y</a>'' \<and>
   clientCompileFLO (''<flo:page <flo:link href=\"a\" title=\"t\">x'' @ CHR 0x0A # ''y</flo:link>'') Map.empty =
     ''<div class=\"flo-page\" data-title=\"t\">x'' @ CHR 0x0A # ''y</flo:link>'' \<and>
   clientCompileFLO (''<flo:link href=\"a\">x'' @ CHR 0x0A # ''{{user}}</flo:link>'') [''user'' \<mapsto> ''Ada''] =
     ''<flo:link href=\"a\">x'' @ CHR 0x0A # ''Ada</flo:link>''"
  by code_simp

text \<open>
  C10, amended. The link pattern does not match at the opening tag of a link element whose
  text reaches a line terminator before any closing tag, whatever follows: \<^verbatim>\<open>(.*?)\<close> stops
  at the line terminator (first conjunct). The element is returned character for
  character, closing tag included, between the output for the source before it and the
  output for the source after it, when nothing else matches inside it (its attributes and
  text are untouched by the rule table and free of placeholders) and the source before it
  compiles alone (second conjunct).
\<close>

theorem link_across_lines_untransformed:
  assumes "is_line_terminator nl" "CHR 0x22 \<notin> set h" "CHR ''>'' \<notin> set a"
    "\<not> sublist ''</flo:link>'' t1"
  shows "re_exec link_re (''<flo:link href=\"'' @ h @ ''\"'' @ a @ ''>'' @ t1 @ nl # following) = None \<and>
         (compiles_alone pre context \<and>
          untouched (h @ ''\"'' @ a @ ''>'' @ t1 @ nl # t2) \<and>
          placeholder_free (h @ ''\"'' @ a @ ''>'' @ t1 @ nl # t2) \<longrightarrow>
          clientCompileFLO
            (pre @ ''<flo:link href=\"'' @ h @ ''\"'' @ a @ ''>'' @ t1 @ nl # t2 @ ''</flo:link>'' @ rest)
            context =
          clientCompileFLO pre context
            @ ''<flo:link href=\"'' @ h @ ''\"'' @ a @ ''>'' @ t1 @ nl # t2 @ ''</flo:link>''
            @ clientCompileFLO rest context)"
proof -
  let ?in = "h @ ''\"'' @ a @ ''>'' @ t1 @ nl # t2"
  let ?w = "''flo:link href=\"'' @ ?in"
  let ?E = "(CHR ''<'' # ?w) @ ''</flo:link>''"
  have "clientCompileFLO (pre @ ?E @ rest) context =
          clientCompileFLO pre context @ ?E @ clientCompileFLO rest context"
    if alone: "compiles_alone pre context" and u: "untouched ?in" and p: "placeholder_free ?in"
  proof -
    have "untouched ''flo:link href=\"''"
      by (rule untouched_free) simp
    then have "untouched ?w"
      using u by (rule untouched_append)
    moreover have "\<forall>(r, rep)\<in>set client_rules.
           \<exists>k. r = One (Lit CHR ''<'') # k \<and> (\<forall>X. re_exec r (CHR ''<'' # ?w @ X) = None)"
      using link_tag_skipped [OF assms, of t2] by simp
    ultimately have "untouched (CHR ''<'' # ?w)"
      by (intro untouched_block)
    moreover have "untouched ''/flo:link>''"
      by (rule untouched_free) simp
    then have "untouched (CHR ''<'' # ''/flo:link>'')"
      using closing_link_tag_skipped by (intro untouched_block)
    ultimately have "untouched ((CHR ''<'' # ?w) @ (CHR ''<'' # ''/flo:link>''))"
      by (rule untouched_append)
    then have uE: "untouched ?E" by simp
    have "placeholder_free ''<flo:link href=\"''"
      by (rule placeholder_free_free) simp
    then have "placeholder_free (''<flo:link href=\"'' @ ?in)"
      using p by (rule placeholder_free_append)
    moreover have "placeholder_free ''</flo:link>''"
      by (rule placeholder_free_free) simp
    ultimately have "placeholder_free ((''<flo:link href=\"'' @ ?in) @ ''</flo:link>'')"
      by (rule placeholder_free_append)
    then have pE: "placeholder_free ?E" by simp
    have "clientCompileFLO (?E @ rest) context = ?E @ clientCompileFLO rest context"
      using uE pE by (rule unmatched_passes_through)
    with alone show ?thesis by (simp add: compiles_alone_def)
  qed
  with link_not_across_lines [OF assms, of following] show ?thesis by simp
qed

theorem link_across_lines_untransformed_witness:
  "re_exec link_re (''<flo:link href=\"/a\" id=\"l\">first'' @ CHR 0x0A # ''second</flo:link>'') = None \<and>
   clientCompileFLO
       (''<flo:header>See '' @ ''<flo:link href=\"/a\" id=\"l\">first'' @ CHR 0x0A
          # ''<b>second</b></flo:link>'' @ ''</flo:header>'')
       Map.empty =
     ''<header class=\"flo-header\">See '' @ ''<flo:link href=\"/a\" id=\"l\">first'' @ CHR 0x0A
       # ''<b>second</b></flo:link>'' @ ''</header>''"
proof -
  let ?in = "''/a'' @ ''\"'' @ '' id=\"l\"'' @ ''>'' @ ''first'' @ CHR 0x0A # ''<b>second</b>''"
  have h: "is_line_terminator (CHR 0x0A)" "CHR 0x22 \<notin> set ''/a''" "CHR ''>'' \<notin> set '' id=\"l\"''"
    "\<not> sublist ''</flo:link>'' ''first''"
    by code_simp+
  have "compiles_alone ''See '' Map.empty"
    by (rule compiles_alone_text) simp_all
  then have "compiles_alone (''<flo:header>'' @ ''See '') Map.empty"
    by (rule compiles_alone_append [OF compiles_alone_header])
  then have alone: "compiles_alone ''<flo:header>See '' Map.empty" by simp
  have "untouched ''b>second''" "untouched ''/b>''"
    by (rule untouched_free, simp)+
  then have b: "untouched (CHR ''<'' # ''b>second'')" "untouched (CHR ''<'' # ''/b>'')"
    using wrapper_skipped [of "''>second''" "CHR ''b''"] closing_wrapper_skipped [of "CHR ''b''" "''>''"]
    by (intro untouched_block; simp)+
  have "untouched (''/a'' @ ''\"'' @ '' id=\"l\"'' @ ''>'' @ ''first'' @ [CHR 0x0A])"
    by (rule untouched_free) simp
  then have "untouched ((''/a'' @ ''\"'' @ '' id=\"l\"'' @ ''>'' @ ''first'' @ [CHR 0x0A])
          @ (CHR ''<'' # ''b>second'') @ (CHR ''<'' # ''/b>''))"
    by (rule untouched_append [OF _ untouched_append [OF b]])
  then have u: "untouched ?in" by simp
  have p: "placeholder_free ?in"
    by (rule placeholder_free_free) simp
  have r: "clientCompileFLO ''<flo:header>See '' Map.empty = ''<header class=\"flo-header\">See ''"
    "clientCompileFLO ''</flo:header>'' Map.empty = ''</header>''"
    by code_simp+
  from link_across_lines_untransformed
         [OF h, of "''second</flo:link>''" "''<flo:header>See ''" Map.empty "''<b>second</b>''" "''</flo:header>''"]
    alone u p r show ?thesis by simp
qed

section \<open>Totality\<close>

text \<open>
  C8, as stated: an unbalanced or unknown tag would pass through literally. An opening
  header tag without its closing tag does not: opening and closing tags are rewritten one
  by one. Nor does the unknown tag \<^verbatim>\<open><flo:pages title="t">\<close>: the page pattern matches it.
\<close>

theorem unbalanced_header_is_rewritten:
  "clientCompileFLO ''<flo:header>'' Map.empty = ''<header class=\"flo-header\">'' \<and>
   clientCompileFLO ''<flo:header>'' Map.empty \<noteq> ''<flo:header>'' \<and>
   clientCompileFLO ''<flo:pages title=\"t\">'' Map.empty = ''<div class=\"flo-page\" data-title=\"t\">''"
  by code_simp

text \<open>
  C8, amended. Each of the three compilers returns for every source and every context:
  written as a computation that may not return, it returns, and what it returns is the
  string of the compiler (first three conjuncts); nothing in a compiler raises. A source
  in which no pattern matches is returned as it is (fourth conjunct), and a stretch of
  source at no position of which a pattern matches, whatever follows it, passes through
  literally (fifth conjunct). A tag that one of the twelve literal rules names, an opening
  or closing header, nav, logo, main or footer tag or a closing page or card tag, is
  rewritten on its own, with or without its counterpart (sixth conjunct). In the last two
  the source before the stretch or tag compiles alone, and the source after it is
  compiled as it would be alone.
\<close>

theorem compiler_total_and_unmatched_literal:
  "clientCompileFLO_run src context = Some (clientCompileFLO src context) \<and>
   compileFLOtoHTML_run src context = Some (compileFLOtoHTML src context) \<and>
   clientCompileFLO_123_run src context = Some (clientCompileFLO_123 src context) \<and>
   (\<not> matches_somewhere placeholder_re src \<and>
    (\<forall>(r, rep)\<in>set client_rules. \<not> matches_somewhere r src) \<longrightarrow>
      clientCompileFLO src context = src) \<and>
   (compiles_alone pre context \<and> untouched w \<and> placeholder_free w \<longrightarrow>
      clientCompileFLO (pre @ w @ rest) context =
        clientCompileFLO pre context @ w @ clientCompileFLO rest context) \<and>
   (compiles_alone pre context \<and> (p, rep) \<in> set simple_tags \<longrightarrow>
      clientCompileFLO (pre @ p @ rest) context =
        clientCompileFLO pre context @ rep @ clientCompileFLO rest context)"
proof -
  have "clientCompileFLO src context = src"
    if "\<not> matches_somewhere placeholder_re src"
      and "\<forall>(r, rep)\<in>set client_rules. \<not> matches_somewhere r src"
    using that by (simp add: clientCompileFLO_def replace_g_id apply_rules_id)
  moreover have "clientCompileFLO (pre @ w @ rest) context =
          clientCompileFLO pre context @ w @ clientCompileFLO rest context"
    if "compiles_alone pre context" and "untouched w" and "placeholder_free w"
    using that unmatched_passes_through [of w rest "context"] by (simp add: compiles_alone_def)
  moreover have "clientCompileFLO (pre @ p @ rest) context =
        clientCompileFLO pre context @ rep @ clientCompileFLO rest context"
    if "compiles_alone pre context" and "(p, rep) \<in> set simple_tags"
    using that simple_tags_compiled [of p rep rest "context"] by (simp add: compiles_alone_def)
  ultimately show ?thesis
    using compilers_return [of src "context"] by blast
qed

theorem compiler_total_and_unmatched_literal_witness:
  "clientCompileFLO_run ''<flo:page><flo:link href=\"x\">y'' Map.empty =
     Some ''<flo:page><flo:link href=\"x\">y'' \<and>
   clientCompileFLO (''<flo:header>a '' @ ''<flo:widget/>'' @ ''</flo:link>'') Map.empty =
     ''<header class=\"flo-header\">a <flo:widget/></flo:link>'' \<and>
   clientCompileFLO (''<flo:header>a '' @ ''</flo:main>'' @ ''</flo:link>'') Map.empty =
     ''<header class=\"flo-header\">a </main></flo:link>''"
proof -
  let ?src = "''<flo:page><flo:link href=\"x\">y''"
  have "compiles_alone ''a '' Map.empty"
    by (rule compiles_alone_text) simp_all
  then have "compiles_alone (''<flo:header>'' @ ''a '') Map.empty"
    by (rule compiles_alone_append [OF compiles_alone_header])
  then have alone: "compiles_alone ''<flo:header>a '' Map.empty" by simp
  have "untouched ''flo:widget/>''"
    by (rule untouched_free) simp
  then have "untouched (CHR ''<'' # ''flo:widget/>'')"
    using unknown_tag_skipped by (intro untouched_block)
  then have u: "untouched ''<flo:widget/>''" by simp
  have p: "placeholder_free ''<flo:widget/>''"
    by (rule placeholder_free_free) simp
  have m: "\<not> matches_somewhere placeholder_re ?src"
    "\<forall>(r, rep)\<in>set client_rules. \<not> matches_somewhere r ?src"
    by code_simp+
  have t: "(''</flo:main>'', ''</main>'') \<in> set simple_tags"
    by code_simp
  have r: "clientCompileFLO ''<flo:header>a '' Map.empty = ''<header class=\"flo-header\">a ''"
    "clientCompileFLO ''</flo:link>'' Map.empty = ''</flo:link>''"
    by code_simp+
  note inst = compiler_total_and_unmatched_literal
         [of ?src Map.empty "''<flo:header>a ''" "''<flo:widget/>''" "''</flo:link>''"
            "''</flo:main>''" "''</main>''"]
  have "clientCompileFLO_run ?src Map.empty = Some ?src"
    using inst [THEN conjunct1] inst [THEN conjunct2, THEN conjunct2, THEN conjunct2, THEN conjunct1] m
    by simp
  moreover have "clientCompileFLO (''<flo:header>a '' @ ''<flo:widget/>'' @ ''</flo:link>'') Map.empty =
     ''<header class=\"flo-header\">a '' @ ''<flo:widget/>'' @ ''</flo:link>''"
    using inst [THEN conjunct2, THEN conjunct2, THEN conjunct2, THEN conjunct2, THEN conjunct1] alone u p
    by (simp only: r)
  moreover have "clientCompileFLO (''<flo:header>a '' @ ''</flo:main>'' @ ''</flo:link>'') Map.empty =
     ''<header class=\"flo-header\">a '' @ ''</main>'' @ ''</flo:link>''"
    using inst [THEN conjunct2, THEN conjunct2, THEN conjunct2, THEN conjunct2, THEN conjunct2] alone t
    by (simp only: r)
  ultimately show ?thesis by simp
qed


end
